theory Spec2Isabelle
  imports Main "HOL-Library.Sublist"
begin

section \<open>Strings\<close>

text \<open>
  The scanner of \<^verbatim>\<open>src/parser.ts\<close> works on JavaScript strings. They are modelled as
  \<^typ>\<open>string\<close> (character lists); a character stands for the code unit of the same
  number, U+0000 to U+00FF. White space is the white space of JavaScript among these,
  the no-break space U+00A0 included; word characters and identifier starts are the
  ASCII classes that \<^verbatim>\<open>\w\<close> and \<^verbatim>\<open>[A-Za-z_]\<close> denote. The case mappings act on the
  ASCII letters: the upper-cased line is only compared with the keywords, and the names
  that are lower-cased are matches of \<^verbatim>\<open>\w+\<close>. \<^verbatim>\<open>-1\<close> results of \<^verbatim>\<open>indexOf\<close> are the
  value \<^term>\<open>None\<close>.
\<close>

abbreviation SPC :: char where "SPC \<equiv> CHR 0x20"
abbreviation TAB :: char where "TAB \<equiv> CHR 0x09"
abbreviation LF :: char where "LF \<equiv> CHR 0x0A"
abbreviation CR :: char where "CR \<equiv> CHR 0x0D"
abbreviation SQ :: char where "SQ \<equiv> CHR 0x27"
abbreviation DQ :: char where "DQ \<equiv> CHR 0x22"
abbreviation NBSP :: char where "NBSP \<equiv> CHR 0xA0"

definition isSpace :: "char \<Rightarrow> bool" where
  \<comment> \<open>The class \<^verbatim>\<open>\s\<close>, which is also what \<^verbatim>\<open>trim()\<close> removes: tab, line feed,
      vertical tab, form feed, carriage return, space and no-break space.\<close>
  "isSpace c = (c \<in> set [SPC, TAB, LF, CHR 0x0B, CHR 0x0C, CR, NBSP])"

definition isWordChar :: "char \<Rightarrow> bool" where
  \<comment> \<open>The class \<^verbatim>\<open>\w\<close>.\<close>
  "isWordChar c =
     (c \<in> set ''abcdefghijklmnopqrstuvwxyzABCDEFGHIJKLMNOPQRSTUVWXYZ0123456789_'')"

definition isIdentStart :: "char \<Rightarrow> bool" where
  \<comment> \<open>The class \<^verbatim>\<open>[A-Za-z_]\<close>.\<close>
  "isIdentStart c = (c \<in> set ''abcdefghijklmnopqrstuvwxyzABCDEFGHIJKLMNOPQRSTUVWXYZ_'')"

definition isDot :: "char \<Rightarrow> bool" where
  \<comment> \<open>What \<^verbatim>\<open>.\<close> matches: anything but a line terminator.\<close>
  "isDot c = (c \<noteq> LF \<and> c \<noteq> CR)"

definition toUpperChar :: "char \<Rightarrow> char" where
  "toUpperChar c =
     (case map_of (zip ''abcdefghijklmnopqrstuvwxyz'' ''ABCDEFGHIJKLMNOPQRSTUVWXYZ'') c of
        Some u \<Rightarrow> u | None \<Rightarrow> c)"

definition toLowerChar :: "char \<Rightarrow> char" where
  "toLowerChar c =
     (case map_of (zip ''ABCDEFGHIJKLMNOPQRSTUVWXYZ'' ''abcdefghijklmnopqrstuvwxyz'') c of
        Some u \<Rightarrow> u | None \<Rightarrow> c)"

definition toUpperCase :: "string \<Rightarrow> string" where
  "toUpperCase s = map toUpperChar s"

definition toLowerCase :: "string \<Rightarrow> string" where
  "toLowerCase s = map toLowerChar s"

definition trim :: "string \<Rightarrow> string" where
  "trim s = rev (dropWhile isSpace (rev (dropWhile isSpace s)))"

fun indexOf :: "string \<Rightarrow> string \<Rightarrow> nat option" where
  "indexOf [] pat = (if pat = [] then Some 0 else None)"
| "indexOf (c # cs) pat =
     (if prefix pat (c # cs) then Some 0 else map_option Suc (indexOf cs pat))"

definition includes_str :: "string \<Rightarrow> string \<Rightarrow> bool" where
  "includes_str s pat = (indexOf s pat \<noteq> None)"

fun consHead :: "char \<Rightarrow> string list \<Rightarrow> string list" where
  "consHead c [] = [[c]]"
| "consHead c (l # ls) = (c # l) # ls"

fun splitLines :: "string \<Rightarrow> string list" where
  \<comment> \<open>\<^verbatim>\<open>text.split(/\r?\n/)\<close>\<close>
  "splitLines [] = [[]]"
| "splitLines [c] = (if c = LF then [[], []] else [[c]])"
| "splitLines (c # d # cs) =
     (if c = LF then [] # splitLines (d # cs)
      else if c = CR \<and> d = LF then [] # splitLines cs
      else consHead c (splitLines (d # cs)))"



section \<open>Preprocessing of a physical line\<close>

fun stripBlockComments :: "string \<Rightarrow> string" where
  \<comment> \<open>\<^verbatim>\<open>line.replace(/\(\*[\s\S]*?\*\)/g, (m) => " ".repeat(m.length))\<close>\<close>
  "stripBlockComments [] = []"
| "stripBlockComments (c # cs) =
     (if prefix ''(*'' (c # cs) then
        (case indexOf (drop 1 cs) ''*)'' of
           Some k \<Rightarrow> replicate (k + 4) SPC @ stripBlockComments (drop (k + 3) cs)
         | None \<Rightarrow> c # stripBlockComments cs)
      else c # stripBlockComments cs)"

fun lineCommentLoop :: "bool \<Rightarrow> string \<Rightarrow> nat \<Rightarrow> string \<Rightarrow> nat option" where
  \<comment> \<open>The loop of \<^verbatim>\<open>lineCommentIndex\<close> from index \<open>i\<close> on, the text from \<open>i\<close> being
      the last argument; it runs while \<open>i < line.length - 1\<close>.\<close>
  "lineCommentLoop inString stringChar i (ch # nx # rest) =
     (if inString then
        (if [ch] = stringChar then lineCommentLoop False stringChar (i + 1) (nx # rest)
         else lineCommentLoop True stringChar (i + 1) (nx # rest))
      else if ch = SQ \<or> ch = DQ then lineCommentLoop True [ch] (i + 1) (nx # rest)
      else if ch = CHR ''/'' \<and> nx = CHR ''/'' then Some i
      else lineCommentLoop False stringChar (i + 1) (nx # rest))"
| "lineCommentLoop inString stringChar i rest = None"

definition lineCommentIndex :: "string \<Rightarrow> nat option" where
  "lineCommentIndex line = lineCommentLoop False [] 0 line"

fun blankQuoted :: "char \<Rightarrow> string \<Rightarrow> string" where
  \<comment> \<open>\<^verbatim>\<open>line.replace(/q[^q]*q/g, (m) => q + " ".repeat(m.length - 2) + q)\<close>\<close>
  "blankQuoted q [] = []"
| "blankQuoted q (c # cs) =
     (if c = q then
        (case indexOf cs [q] of
           Some k \<Rightarrow> q # replicate k SPC @ q # blankQuoted q (drop (k + 1) cs)
         | None \<Rightarrow> c # blankQuoted q cs)
      else c # blankQuoted q cs)"

definition stripStrings :: "string \<Rightarrow> string" where
  "stripStrings line = blankQuoted DQ (blankQuoted SQ line)"

definition closeBlockComment :: "string \<Rightarrow> string option" where
  \<comment> \<open>Inside a comment that spans lines: blank through its end, or skip the line.\<close>
  "closeBlockComment line =
     (case indexOf line ''*)'' of
        Some endIdx \<Rightarrow> Some (replicate (endIdx + 2) SPC @ drop (endIdx + 2) line)
      | None \<Rightarrow> None)"

definition cutOpenComment :: "string \<Rightarrow> string \<times> bool" where
  \<comment> \<open>An opener left after the same-line comments: cut the line there, enter the comment.\<close>
  "cutOpenComment line =
     (case indexOf line ''(*'' of
        Some k \<Rightarrow> (take k line, True)
      | None \<Rightarrow> (line, False))"

definition cutLineComment :: "string \<Rightarrow> string" where
  "cutLineComment line =
     (case lineCommentIndex line of
        Some commentIdx \<Rightarrow> take commentIdx line
      | None \<Rightarrow> line)"

definition blockCommentStages :: "bool \<Rightarrow> string \<Rightarrow> (string \<times> bool) option" where
  \<comment> \<open>Lines 110 to 126: the line after the three block-comment stages with the new
      in-comment flag, or \<^term>\<open>None\<close> when the line is skipped inside a comment.\<close>
  "blockCommentStages inBC line =
     (case (if inBC then closeBlockComment line else Some line) of
        None \<Rightarrow> None
      | Some line1 \<Rightarrow> Some (cutOpenComment (stripBlockComments line1)))"

definition preprocess :: "bool \<Rightarrow> string \<Rightarrow> string option \<times> bool" where
  \<comment> \<open>Lines 110 to 135: \<open>originalLine\<close> (or \<^term>\<open>None\<close> for a skipped line) and the
      in-comment flag for the next line.\<close>
  "preprocess inBC line =
     (case blockCommentStages inBC line of
        None \<Rightarrow> (None, True)
      | Some (line3, inBC') \<Rightarrow> (Some (cutLineComment line3), inBC'))"

definition activeLine :: "bool \<Rightarrow> string \<Rightarrow> string option" where
  \<comment> \<open>The line that is classified: comments removed, string interiors blanked.\<close>
  "activeLine inBC line = map_option stripStrings (fst (preprocess inBC line))"

section \<open>The structural model\<close>

text \<open>
  The interfaces of \<^verbatim>\<open>src/parser.ts\<close>. Fields that several interfaces share (\<open>name\<close>,
  \<open>type\<close>, \<open>line\<close>, \<open>col\<close>, \<open>section\<close>) carry the initial of their interface. Line
  indices are natural numbers, columns and \<open>endLine\<close> integers (\<open>endLine\<close> starts at
  \<open>-1\<close>). The insertion-ordered \<open>Map\<close> of a block is an association list.
\<close>

record StackEntry =
  keyword :: string
  se_line :: nat
  se_col :: int

record VariableDecl =
  v_name :: string
  v_type :: string
  v_section :: string
  block :: string
  v_line :: nat
  v_col :: int

record BlockDecl =
  b_type :: string
  b_name :: string
  b_line :: nat
  endLine :: int
  hasVersion :: bool
  hasPragma :: bool
  hasBegin :: bool
  hasCode :: bool
  hasCaseElse :: "(nat \<times> bool) list"

record ParseResult =
  blocks :: "BlockDecl list"
  variables :: "VariableDecl list"
  usedVariables :: "string set"
  unmatchedOpens :: "StackEntry list"
  unmatchedCloses :: "StackEntry list"
  exitOutsideLoop :: "StackEntry list"

text \<open>
  The local variables of \<^verbatim>\<open>parse\<close>, next to the result it fills in. A stack grows at
  its end, as with \<^verbatim>\<open>push\<close> and \<^verbatim>\<open>pop\<close>. \<open>currentBlock\<close> is a reference to an element
  of \<open>blocks\<close>: the index of that element.
\<close>

record ScanState = ParseResult +
  blockStack :: "StackEntry list"
  varStack :: "StackEntry list"
  controlStack :: "StackEntry list"
  currentBlock :: "nat option"
  currentVarSection :: string
  inBlockComment :: bool
  afterBegin :: bool
  lineIdx :: nat

definition BLOCK_PAIRS :: "(string \<times> string) list" where
  "BLOCK_PAIRS =
     [(''FUNCTION_BLOCK'', ''END_FUNCTION_BLOCK''),
      (''FUNCTION'', ''END_FUNCTION''),
      (''ORGANIZATION_BLOCK'', ''END_ORGANIZATION_BLOCK''),
      (''DATA_BLOCK'', ''END_DATA_BLOCK''),
      (''TYPE'', ''END_TYPE'')]"

definition BLOCK_END_TO_OPEN :: "(string \<times> string) list" where
  "BLOCK_END_TO_OPEN = map (\<lambda>(opn, cls). (cls, opn)) BLOCK_PAIRS"

definition VAR_OPENS :: "string list" where
  "VAR_OPENS =
     [''VAR_INPUT'', ''VAR_OUTPUT'', ''VAR_IN_OUT'', ''VAR_TEMP'', ''VAR_GLOBAL'', ''VAR'',
      ''STRUCT'']"

definition CONTROL_PAIRS :: "(string \<times> string) list" where
  "CONTROL_PAIRS =
     [(''IF'', ''END_IF''), (''FOR'', ''END_FOR''), (''WHILE'', ''END_WHILE''),
      (''REPEAT'', ''END_REPEAT''), (''CASE'', ''END_CASE''), (''REGION'', ''END_REGION'')]"

definition CONTROL_END_TO_OPEN :: "(string \<times> string) list" where
  "CONTROL_END_TO_OPEN = map (\<lambda>(opn, cls). (cls, opn)) CONTROL_PAIRS"

definition LOOP_KEYWORDS :: "string list" where
  "LOOP_KEYWORDS = [''FOR'', ''WHILE'', ''REPEAT'']"

definition KEYWORD_SET :: "string list" where
  "KEYWORD_SET =
     [''IF'', ''THEN'', ''ELSIF'', ''ELSE'', ''END_IF'',
      ''FOR'', ''TO'', ''BY'', ''DO'', ''END_FOR'',
      ''WHILE'', ''END_WHILE'', ''REPEAT'', ''UNTIL'', ''END_REPEAT'',
      ''CASE'', ''OF'', ''END_CASE'', ''RETURN'', ''EXIT'', ''CONTINUE'',
      ''BEGIN'', ''END_VAR'', ''END_STRUCT'', ''REGION'', ''END_REGION'',
      ''TRUE'', ''FALSE'', ''AND'', ''OR'', ''XOR'', ''NOT'', ''MOD'']"

section \<open>Helpers of the scanner\<close>

definition matchKeyword :: "string \<Rightarrow> string \<Rightarrow> bool" where
  "matchKeyword upper kw =
     (upper = kw \<or> upper = kw @ '';'' \<or>
      prefix (kw @ '' '') upper \<or> prefix (kw @ [TAB]) upper \<or> prefix (kw @ '';'') upper)"

fun extractBlockName :: "string \<Rightarrow> string" where
  \<comment> \<open>\<^verbatim>\<open>line.match(/"([^"]+)"/)\<close>: the first non-empty text between two double quotes.\<close>
  "extractBlockName [] = []"
| "extractBlockName (c # cs) =
     (if c = DQ \<and> takeWhile (\<lambda>x. x \<noteq> DQ) cs \<noteq> [] \<and> dropWhile (\<lambda>x. x \<noteq> DQ) cs \<noteq> []
      then takeWhile (\<lambda>x. x \<noteq> DQ) cs
      else extractBlockName cs)"

definition isKeyword :: "string \<Rightarrow> bool" where
  "isKeyword word = (toUpperCase word \<in> set KEYWORD_SET)"

function hashVars :: "string \<Rightarrow> string list" where
  \<comment> \<open>The matches of \<^verbatim>\<open>/#([A-Za-z_]\w*)/g\<close>, in order.\<close>
  "hashVars [] = []"
| "hashVars (c # cs) =
     (if c = CHR ''#'' \<and> cs \<noteq> [] \<and> isIdentStart (hd cs)
      then takeWhile isWordChar cs # hashVars (dropWhile isWordChar cs)
      else hashVars cs)"
  by pat_completeness auto
termination
  by (relation "measure length") (auto simp: length_dropWhile_le less_Suc_eq_le)

text \<open>
  The two declaration patterns of lines 256 and 273. The first is
  \<^verbatim>\<open>/^(\w+)\s*:\s*(.+?)(?:\s*:=\s*.+?)?\s*;/\<close>: after the name and the colon, the
  white space is taken greedily and the type lazily, the shortest text after which
  the rest of the pattern matches.
\<close>

definition wsSemi :: "string \<Rightarrow> bool" where
  \<comment> \<open>\<^verbatim>\<open>\s*;\<close> matches here.\<close>
  "wsSemi x = prefix '';'' (dropWhile isSpace x)"

fun dotsLazy :: "(string \<Rightarrow> bool) \<Rightarrow> string \<Rightarrow> bool" where
  \<comment> \<open>\<^verbatim>\<open>.+?\<close> followed by \<open>k\<close> matches here.\<close>
  "dotsLazy k [] = False"
| "dotsLazy k (c # cs) = (isDot c \<and> (k cs \<or> dotsLazy k cs))"

fun wsStar :: "(string \<Rightarrow> bool) \<Rightarrow> string \<Rightarrow> bool" where
  \<comment> \<open>\<^verbatim>\<open>\s*\<close> followed by \<open>k\<close> matches here.\<close>
  "wsStar k [] = k []"
| "wsStar k (c # cs) = (k (c # cs) \<or> (isSpace c \<and> wsStar k cs))"

definition initTail :: "string \<Rightarrow> bool" where
  \<comment> \<open>\<^verbatim>\<open>(?:\s*:=\s*.+?)?\s*;\<close> matches here.\<close>
  "initTail x =
     ((prefix '':='' (dropWhile isSpace x) \<and>
         wsStar (dotsLazy wsSemi) (drop 2 (dropWhile isSpace x))) \<or>
      wsSemi x)"

fun typeLen :: "string \<Rightarrow> nat option" where
  \<comment> \<open>The length of the lazy capture \<^verbatim>\<open>(.+?)\<close> that starts here.\<close>
  "typeLen [] = None"
| "typeLen (c # cs) =
     (if \<not> isDot c then None
      else if initTail cs then Some 1
      else map_option Suc (typeLen cs))"

fun declType :: "string \<Rightarrow> string option" where
  \<comment> \<open>\<^verbatim>\<open>\s*(.+?)(?:\s*:=\s*.+?)?\s*;\<close> after the colon: the capture.\<close>
  "declType [] = None"
| "declType (c # cs) =
     (case (if isSpace c then declType cs else None) of
        Some t \<Rightarrow> Some t
      | None \<Rightarrow> map_option (\<lambda>m. take m (c # cs)) (typeLen (c # cs)))"

definition afterName :: "string \<Rightarrow> (string \<times> string) option" where
  \<comment> \<open>\<^verbatim>\<open>^(\w+)\s*:\<close>: the name and the text after the colon.\<close>
  "afterName t =
     (let nm = takeWhile isWordChar t; r = dropWhile isSpace (dropWhile isWordChar t)
      in if nm \<noteq> [] \<and> prefix '':'' r then Some (nm, drop 1 r) else None)"

definition varMatch :: "string \<Rightarrow> (string \<times> string) option" where
  "varMatch t =
     (case afterName t of
        None \<Rightarrow> None
      | Some (nm, r) \<Rightarrow> map_option (\<lambda>ty. (nm, ty)) (declType r))"

definition simpleMatch :: "string \<Rightarrow> (string \<times> string) option" where
  \<comment> \<open>\<^verbatim>\<open>/^(\w+)\s*:\s*(\S+)/\<close>\<close>
  "simpleMatch t =
     (case afterName t of
        None \<Rightarrow> None
      | Some (nm, r) \<Rightarrow>
          (let ty = takeWhile (\<lambda>c. \<not> isSpace c) (dropWhile isSpace r)
           in if ty = [] then None else Some (nm, ty)))"

definition dropSemiEnd :: "string \<Rightarrow> string" where
  \<comment> \<open>\<^verbatim>\<open>.replace(/;$/, "")\<close>\<close>
  "dropSemiEnd s = (if s \<noteq> [] \<and> last s = CHR '';'' then butlast s else s)"

section \<open>The scanner\<close>

definition mkEntry :: "string \<Rightarrow> nat \<Rightarrow> StackEntry" where
  "mkEntry kw ln = \<lparr>keyword = kw, se_line = ln, se_col = 0\<rparr>"

definition updCurrent :: "(BlockDecl \<Rightarrow> BlockDecl) \<Rightarrow> ScanState \<Rightarrow> ScanState" where
  \<comment> \<open>\<^verbatim>\<open>if (currentBlock) currentBlock.f = ...\<close>\<close>
  "updCurrent f s =
     (case currentBlock s of
        None \<Rightarrow> s
      | Some i \<Rightarrow> s\<lparr>blocks := (blocks s)[i := f (blocks s ! i)]\<rparr>)"

definition currentBlockName :: "ScanState \<Rightarrow> string" where
  \<comment> \<open>\<^verbatim>\<open>currentBlock?.name || ""\<close>\<close>
  "currentBlockName s = (case currentBlock s of None \<Rightarrow> [] | Some i \<Rightarrow> b_name (blocks s ! i))"

definition openBlock :: "string \<Rightarrow> string \<Rightarrow> ScanState \<Rightarrow> ScanState" where
  \<comment> \<open>Lines 168 to 184.\<close>
  "openBlock openKw originalLine s =
     s\<lparr>blocks := blocks s @
          [\<lparr>b_type = openKw, b_name = extractBlockName originalLine, b_line = lineIdx s,
            endLine = - 1, hasVersion = False, hasPragma = False, hasBegin = False,
            hasCode = False, hasCaseElse = []\<rparr>],
       currentBlock := Some (length (blocks s)),
       blockStack := blockStack s @ [mkEntry openKw (lineIdx s)],
       afterBegin := False\<rparr>"

definition closeBlock :: "string \<Rightarrow> ScanState \<Rightarrow> ScanState" where
  \<comment> \<open>Lines 193 to 206.\<close>
  "closeBlock closeKw s =
     (if blockStack s \<noteq> [] \<and>
         map_of BLOCK_PAIRS (keyword (last (blockStack s))) = Some closeKw
      then (updCurrent (\<lambda>b. b\<lparr>endLine := int (lineIdx s)\<rparr>) s)
             \<lparr>blockStack := butlast (blockStack s), currentBlock := None,
              afterBegin := False\<rparr>
      else s\<lparr>unmatchedCloses := unmatchedCloses s @ [mkEntry closeKw (lineIdx s)]\<rparr>)"

definition beginSection :: "ScanState \<Rightarrow> ScanState" where
  \<comment> \<open>Lines 214 and 215.\<close>
  "beginSection s = (updCurrent (\<lambda>b. b\<lparr>hasBegin := True\<rparr>) s)\<lparr>afterBegin := True\<rparr>"

definition closeVar :: "string \<Rightarrow> ScanState \<Rightarrow> ScanState" where
  \<comment> \<open>Lines 221 to 229.\<close>
  "closeVar upper s =
     (if varStack s \<noteq> [] then
        s\<lparr>varStack := butlast (varStack s),
          currentVarSection :=
            (if butlast (varStack s) \<noteq> [] then keyword (last (butlast (varStack s)))
             else [])\<rparr>
      else
        s\<lparr>unmatchedCloses := unmatchedCloses s @
             [mkEntry (if prefix ''END_STRUCT'' upper then ''END_STRUCT'' else ''END_VAR'')
                (lineIdx s)]\<rparr>)"

definition openVar :: "string \<Rightarrow> ScanState \<Rightarrow> ScanState" where
  \<comment> \<open>Lines 235 and 236, and lines 244 and 245.\<close>
  "openVar varKw s =
     s\<lparr>currentVarSection := varKw, varStack := varStack s @ [mkEntry varKw (lineIdx s)]\<rparr>"

definition declareVar :: "string \<Rightarrow> ScanState \<Rightarrow> ScanState" where
  \<comment> \<open>Lines 255 to 283.\<close>
  "declareVar originalLine s =
     (let origTrimmed = trim originalLine in
      case varMatch origTrimmed of
        Some (varName, ty) \<Rightarrow>
          if \<not> isKeyword varName then
            s\<lparr>variables := variables s @
                 [\<lparr>v_name = varName, v_type = trim (dropSemiEnd (trim ty)),
                   v_section = currentVarSection s, block = currentBlockName s,
                   v_line = lineIdx s,
                   v_col = (case indexOf origTrimmed varName of
                              Some k \<Rightarrow> int k | None \<Rightarrow> - 1)\<rparr>]\<rparr>
          else s
      | None \<Rightarrow>
          (case simpleMatch origTrimmed of
             Some (nm, ty) \<Rightarrow>
               if \<not> isKeyword nm then
                 s\<lparr>variables := variables s @
                      [\<lparr>v_name = nm, v_type = trim (dropSemiEnd ty),
                        v_section = currentVarSection s, block = currentBlockName s,
                        v_line = lineIdx s, v_col = 0\<rparr>]\<rparr>
               else s
           | None \<Rightarrow> s))"

definition pushControl :: "string \<Rightarrow> ScanState \<Rightarrow> ScanState" where
  "pushControl kw s = s\<lparr>controlStack := controlStack s @ [mkEntry kw (lineIdx s)]\<rparr>"

fun mapSet :: "('k \<times> 'v) list \<Rightarrow> 'k \<Rightarrow> 'v \<Rightarrow> ('k \<times> 'v) list" where
  \<comment> \<open>\<^verbatim>\<open>Map.set\<close>: a known key keeps its place, a new one goes last.\<close>
  "mapSet [] k v = [(k, v)]"
| "mapSet ((k', v') # m) k v = (if k' = k then (k, v) # m else (k', v') # mapSet m k v)"

definition markCode :: "string \<Rightarrow> string \<Rightarrow> ScanState \<Rightarrow> ScanState" where
  \<comment> \<open>Lines 289 to 291.\<close>
  "markCode trimmed upper s =
     (if trimmed \<noteq> '';'' \<and> \<not> prefix ''END_'' upper
      then updCurrent (\<lambda>b. b\<lparr>hasCode := True\<rparr>) s else s)"

definition openIf :: "string \<Rightarrow> ScanState \<Rightarrow> ScanState" where
  \<comment> \<open>Lines 310 to 312.\<close>
  "openIf upper s =
     (if (upper = ''IF'' \<or> prefix ''IF '' upper) \<and> \<not> prefix ''ELSIF'' upper
      then pushControl ''IF'' s else s)"

definition openLoop :: "string \<Rightarrow> ScanState \<Rightarrow> ScanState" where
  \<comment> \<open>Lines 315 to 320.\<close>
  "openLoop upper s =
     (case find (matchKeyword upper) [''FOR'', ''WHILE'', ''REPEAT'', ''REGION''] of
        Some openKw \<Rightarrow> pushControl openKw s
      | None \<Rightarrow> s)"

definition closeControl :: "string \<Rightarrow> ScanState \<Rightarrow> ScanState" where
  \<comment> \<open>Lines 323 to 333.\<close>
  "closeControl upper s =
     (case find (matchKeyword upper) (map fst CONTROL_END_TO_OPEN) of
        Some closeKw \<Rightarrow>
          if controlStack s \<noteq> [] \<and>
             map_of CONTROL_END_TO_OPEN closeKw = Some (keyword (last (controlStack s)))
          then s\<lparr>controlStack := butlast (controlStack s)\<rparr>
          else s\<lparr>unmatchedCloses := unmatchedCloses s @ [mkEntry closeKw (lineIdx s)]\<rparr>
      | None \<Rightarrow> s)"

definition checkExit :: "string \<Rightarrow> ScanState \<Rightarrow> ScanState" where
  \<comment> \<open>Lines 336 to 344.\<close>
  "checkExit upper s =
     (if matchKeyword upper ''EXIT'' \<or> matchKeyword upper ''CONTINUE'' then
        (if \<exists>e \<in> set (controlStack s). keyword e \<in> set LOOP_KEYWORDS then s
         else s\<lparr>exitOutsideLoop := exitOutsideLoop s @
                  [mkEntry (if prefix ''EXIT'' upper then ''EXIT'' else ''CONTINUE'')
                     (lineIdx s)]\<rparr>)
      else s)"

definition codeLine :: "string \<Rightarrow> string \<Rightarrow> ScanState \<Rightarrow> ScanState" where
  \<comment> \<open>Lines 288 to 345: a line of the code section.\<close>
  "codeLine trimmed upper s0 =
     (let s = markCode trimmed upper s0 in
      if matchKeyword upper ''CASE'' then
        updCurrent (\<lambda>b. b\<lparr>hasCaseElse := mapSet (hasCaseElse b) (lineIdx s) False\<rparr>)
          (pushControl ''CASE'' s)
      else if matchKeyword upper ''ELSE'' \<and> controlStack s \<noteq> [] then
        (if keyword (last (controlStack s)) = ''CASE'' then
           updCurrent
             (\<lambda>b. b\<lparr>hasCaseElse :=
                      mapSet (hasCaseElse b) (se_line (last (controlStack s))) True\<rparr>) s
         else s)
      else checkExit upper (closeControl upper (openLoop upper (openIf upper s))))"

definition dispatch :: "string \<Rightarrow> string \<Rightarrow> string \<Rightarrow> ScanState \<Rightarrow> ScanState" where
  \<comment> \<open>Lines 152 to 345: the first branch that applies consumes the line.\<close>
  "dispatch originalLine trimmed upper s =
     (if prefix ''{'' trimmed \<and> currentBlock s \<noteq> None then
        updCurrent (\<lambda>b. b\<lparr>hasPragma := True\<rparr>) s
      else if prefix ''VERSION'' upper \<and> currentBlock s \<noteq> None then
        updCurrent (\<lambda>b. b\<lparr>hasVersion := True\<rparr>) s
      else
        case find (matchKeyword upper) (map fst BLOCK_PAIRS) of
          Some openKw \<Rightarrow> openBlock openKw originalLine s
        | None \<Rightarrow>
        (case find (matchKeyword upper) (map fst BLOCK_END_TO_OPEN) of
          Some closeKw \<Rightarrow> closeBlock closeKw s
        | None \<Rightarrow>
          if upper = ''BEGIN'' then beginSection s
          else if matchKeyword upper ''END_VAR'' \<or> matchKeyword upper ''END_STRUCT'' then
            closeVar upper s
          else if prefix ''VAR'' upper \<and> includes_str upper ''CONSTANT'' \<and>
                  \<not> prefix ''VAR_'' upper then
            openVar ''VAR_CONSTANT'' s
          else
            (case find (matchKeyword upper) VAR_OPENS of
               Some varKw \<Rightarrow> openVar varKw s
             | None \<Rightarrow>
               if currentVarSection s \<noteq> [] \<and> \<not> afterBegin s then
                 declareVar originalLine s
               else if afterBegin s then codeLine trimmed upper s
               else s)))"

definition classify :: "string \<Rightarrow> ScanState \<Rightarrow> ScanState" where
  \<comment> \<open>Lines 135 to 345: the classification of one line, comments already removed.\<close>
  "classify originalLine s =
     (let trimmed = trim (stripStrings originalLine); upper = toUpperCase trimmed in
      if trimmed = [] then s
      else
        dispatch originalLine trimmed upper
          (s\<lparr>usedVariables :=
               usedVariables s \<union> set (map toLowerCase (hashVars originalLine))\<rparr>))"

definition step :: "ScanState \<Rightarrow> string \<Rightarrow> ScanState" where
  \<comment> \<open>One pass of the loop of \<^verbatim>\<open>parse\<close> (lines 107 to 346).\<close>
  "step s line =
     (case preprocess (inBlockComment s) line of
        (None, inBC) \<Rightarrow> s\<lparr>inBlockComment := inBC, lineIdx := lineIdx s + 1\<rparr>
      | (Some originalLine, inBC) \<Rightarrow>
          (classify originalLine (s\<lparr>inBlockComment := inBC\<rparr>))\<lparr>lineIdx := lineIdx s + 1\<rparr>)"

definition initState :: ScanState where
  "initState =
     \<lparr>blocks = [], variables = [], usedVariables = {}, unmatchedOpens = [],
      unmatchedCloses = [], exitOutsideLoop = [],
      blockStack = [], varStack = [], controlStack = [], currentBlock = None,
      currentVarSection = [], inBlockComment = False, afterBegin = False, lineIdx = 0\<rparr>"

definition scan :: "string list \<Rightarrow> ScanState" where
  \<comment> \<open>The state after the loop has run over the given lines.\<close>
  "scan ls = foldl step initState ls"

definition finish :: "ScanState \<Rightarrow> ParseResult" where
  \<comment> \<open>Line 349, and the result that is returned.\<close>
  "finish s =
     \<lparr>blocks = blocks s, variables = variables s, usedVariables = usedVariables s,
      unmatchedOpens = unmatchedOpens s @ blockStack s @ varStack s @ controlStack s,
      unmatchedCloses = unmatchedCloses s, exitOutsideLoop = exitOutsideLoop s\<rparr>"

definition parseLines :: "string list \<Rightarrow> ParseResult" where
  "parseLines ls = finish (scan ls)"

definition parse :: "string \<Rightarrow> ParseResult" where
  "parse text = parseLines (splitLines text)"

section \<open>The diagnostic rules\<close>

text \<open>The rules of \<^verbatim>\<open>src/rules.ts\<close>. No rule sets \<open>endCol\<close>.\<close>

datatype DiagnosticSeverity = Error | Warning | Information | Hint

record LintDiagnostic =
  d_line :: nat
  d_col :: int
  message :: string
  severity :: DiagnosticSeverity
  code :: string













definition unusedWarning :: "VariableDecl \<Rightarrow> LintDiagnostic" where
  "unusedWarning v =
     \<lparr>d_line = v_line v, d_col = v_col v,
      message = ''Variable '' @ [SQ] @ v_name v @ [SQ] @ '' is declared but never used'',
      severity = Warning, code = ''SCL101''\<rparr>"

definition reportsUnused :: "ParseResult \<Rightarrow> VariableDecl \<Rightarrow> bool" where
  \<comment> \<open>Lines 201 to 208: whether the loop body reaches the \<^verbatim>\<open>push\<close> for \<open>v\<close>.\<close>
  "reportsUnused result v =
     (\<not> (case find (\<lambda>b. b_name b = block v) (blocks result) of
            Some blk \<Rightarrow> b_type blk = ''DATA_BLOCK'' \<or> b_type blk = ''TYPE''
          | None \<Rightarrow> False) \<and>
      v_section v \<noteq> ''VAR_OUTPUT'' \<and>
      toLowerCase (v_name v) \<notin> usedVariables result)"

definition ruleUnusedVariables :: "ParseResult \<Rightarrow> LintDiagnostic list" where
  "ruleUnusedVariables result =
     map unusedWarning (filter (reportsUnused result) (variables result))"










section \<open>Notions used in the statements\<close>

text \<open>
  A text \<open>a\<close> blanks a text \<open>l\<close> when it has the same length and differs
  from it only where it has a space.
\<close>

definition blanks :: "string \<Rightarrow> string \<Rightarrow> bool" where
  "blanks a l = list_all2 (\<lambda>x y. x = y \<or> x = SPC) a l"

text \<open>A declaration outside any block: three lines.\<close>

definition text_var_outside_block :: string where
  "text_var_outside_block = ''VAR\<newline>  ghost : Int;\<newline>END_VAR''"

text \<open>A block whose code section opens an \<open>IF\<close> with a tab after the keyword.\<close>

definition text_if_tab :: string where
  "text_if_tab = ''FUNCTION_BLOCK '' @ [DQ] @ ''FB_A'' @ [DQ] @ ''\<newline>BEGIN\<newline>IF'' @ [TAB] @ ''#x THEN\<newline>END_IF;\<newline>END_FUNCTION_BLOCK''"

text \<open>
  The blocks of a list opened before line \<open>n\<close>, and each is open still or was closed
  after the line on which it opened.
\<close>

definition blocksClosedLater :: "nat \<Rightarrow> BlockDecl list \<Rightarrow> bool" where
  "blocksClosedLater n bs =
     (\<forall>b \<in> set bs. b_line b < n \<and> (endLine b = - 1 \<or> int (b_line b) < endLine b))"

text \<open>A block that is closed, followed by one that is not.\<close>

definition text_two_blocks :: string where
  "text_two_blocks =
     ''FUNCTION_BLOCK '' @ [DQ] @ ''FB_A'' @ [DQ] @ ''\<newline>BEGIN\<newline>END_FUNCTION_BLOCK\<newline>'' @
     ''FUNCTION '' @ [DQ] @ ''FC_B'' @ [DQ] @ '' : Void\<newline>BEGIN''"

text \<open>
  For the proofs, a pass of the loop is split into what it does to the structure
  (\<open>effect\<close>) and its bookkeeping (line counter, comment flag, usage set).
  \<open>codeOf\<close> is the line as it is classified: \<open>originalLine\<close> of a line that is neither
  skipped inside a comment nor blank. The cascade of \<^const>\<open>dispatch\<close> is split into the
  choice of a branch, which reads three facts of the state, and the branch itself.
\<close>

definition codeOf :: "bool \<Rightarrow> string \<Rightarrow> string option" where
  "codeOf inBC l =
     (case fst (preprocess inBC l) of
        None \<Rightarrow> None
      | Some ol \<Rightarrow> if trim (stripStrings ol) = [] then None else Some ol)"

definition effect :: "string \<Rightarrow> ScanState \<Rightarrow> ScanState" where
  "effect l s =
     (case codeOf (inBlockComment s) l of
        None \<Rightarrow> s
      | Some ol \<Rightarrow>
          dispatch ol (trim (stripStrings ol)) (toUpperCase (trim (stripStrings ol))) s)"

datatype branch =
  Pragma | Version | BlockOpen string | BlockClose string | BeginLine | VarClose
  | VarOpen string | Declaration | Code | Ignored

definition branchOf :: "string \<Rightarrow> string \<Rightarrow> bool \<Rightarrow> bool \<Rightarrow> bool \<Rightarrow> branch" where
  "branchOf trimmed upper inBlock inSection inCode =
     (if prefix ''{'' trimmed \<and> inBlock then Pragma
      else if prefix ''VERSION'' upper \<and> inBlock then Version
      else
        case find (matchKeyword upper) (map fst BLOCK_PAIRS) of
          Some openKw \<Rightarrow> BlockOpen openKw
        | None \<Rightarrow>
        (case find (matchKeyword upper) (map fst BLOCK_END_TO_OPEN) of
          Some closeKw \<Rightarrow> BlockClose closeKw
        | None \<Rightarrow>
          if upper = ''BEGIN'' then BeginLine
          else if matchKeyword upper ''END_VAR'' \<or> matchKeyword upper ''END_STRUCT'' then VarClose
          else if prefix ''VAR'' upper \<and> includes_str upper ''CONSTANT'' \<and>
                  \<not> prefix ''VAR_'' upper then VarOpen ''VAR_CONSTANT''
          else
            (case find (matchKeyword upper) VAR_OPENS of
               Some varKw \<Rightarrow> VarOpen varKw
             | None \<Rightarrow>
               if inSection \<and> \<not> inCode then Declaration
               else if inCode then Code
               else Ignored)))"

fun perform :: "branch \<Rightarrow> string \<Rightarrow> string \<Rightarrow> string \<Rightarrow> ScanState \<Rightarrow> ScanState" where
  "perform Pragma ol t u s = updCurrent (\<lambda>b. b\<lparr>hasPragma := True\<rparr>) s"
| "perform Version ol t u s = updCurrent (\<lambda>b. b\<lparr>hasVersion := True\<rparr>) s"
| "perform (BlockOpen kw) ol t u s = openBlock kw ol s"
| "perform (BlockClose kw) ol t u s = closeBlock kw s"
| "perform BeginLine ol t u s = beginSection s"
| "perform VarClose ol t u s = closeVar u s"
| "perform (VarOpen kw) ol t u s = openVar kw s"
| "perform Declaration ol t u s = declareVar ol s"
| "perform Code ol t u s = codeLine t u s"
| "perform Ignored ol t u s = s"




















text \<open>
  A string literal, as the search for a line comment reads it, runs from a quote
  character to the next occurrence of the same character. \<open>closedQuotes a\<close> says
  that every literal that starts in \<open>a\<close> ends in \<open>a\<close>: the text after \<open>a\<close> starts
  outside a literal.
\<close>

fun closedQuotes :: "string \<Rightarrow> bool" where
  "closedQuotes [] = True"
| "closedQuotes (c # cs) =
     (if c = SQ \<or> c = DQ then
        (case indexOf cs [c] of
           Some k \<Rightarrow> closedQuotes (drop (k + 1) cs)
         | None \<Rightarrow> False)
      else closedQuotes cs)"

text \<open>
  A block whose code assigns a string literal that holds a block-comment opener, and a
  line whose first two literals hold an opener and a terminator and whose third holds a
  line-comment marker.
\<close>

definition text_opener_in_string :: string where
  "text_opener_in_string =
     ''FUNCTION_BLOCK \"FB_A\"\<newline>BEGIN\<newline>  #s := '' @ [SQ] @ ''(*'' @ [SQ] @
     '';\<newline>  EXIT;\<newline>END_FUNCTION_BLOCK''"

definition line_marker_in_string :: string where
  "line_marker_in_string =
     ''a := '' @ [SQ] @ ''(*'' @ [SQ] @ ''; b := '' @ [DQ] @ ''*)'' @ [DQ] @
     ''; c := '' @ [SQ] @ ''//'' @ [SQ] @ '';''"
















text \<open>
  The frames that the lines of a text leave open, read off its tokens as the
  classification prescribes. A block opener opens a block frame and ends the code
  section; a block closer closes the innermost block frame when it is its designated
  closer, and then ends the code section; \<open>BEGIN\<close> starts the code section; a section
  opener opens a section frame and a section closer closes the innermost one; inside the
  code section a control-flow opener opens a frame and a control-flow closer closes the
  innermost one when it is its designated closer. Each list has the innermost frame
  first. \<open>framesOf ls\<close> are the frames open after the lines \<open>ls\<close>, \<open>commentOpen ls\<close> says
  whether these lines end inside a block comment, and \<open>framesIn s\<close> reads the frames off
  the stacks of a scanner state.
\<close>

record frames =
  openBlocks :: "string list"
  openSections :: "string list"
  openControl :: "string list"
  inCode :: bool








section \<open>Facts about the scanner\<close>

subsection \<open>Case analysis on the branch a line takes\<close>

lemma dispatch_cases [case_names pragma version blockOpen blockClose beginLine varClose
    varConst varOpen decl codeSec noSec]:
  assumes "prefix ''{'' t \<Longrightarrow> currentBlock s \<noteq> None \<Longrightarrow>
             P (updCurrent (\<lambda>b. b\<lparr>hasPragma := True\<rparr>) s)"
    and "prefix ''VERSION'' u \<Longrightarrow> currentBlock s \<noteq> None \<Longrightarrow>
             P (updCurrent (\<lambda>b. b\<lparr>hasVersion := True\<rparr>) s)"
    and "\<And>kw. find (matchKeyword u) (map fst BLOCK_PAIRS) = Some kw \<Longrightarrow> P (openBlock kw ol s)"
    and "\<And>kw. find (matchKeyword u) (map fst BLOCK_END_TO_OPEN) = Some kw \<Longrightarrow>
             P (closeBlock kw s)"
    and "u = ''BEGIN'' \<Longrightarrow> P (beginSection s)"
    and "matchKeyword u ''END_VAR'' \<or> matchKeyword u ''END_STRUCT'' \<Longrightarrow> P (closeVar u s)"
    and "prefix ''VAR'' u \<Longrightarrow> P (openVar ''VAR_CONSTANT'' s)"
    and "\<And>kw. find (matchKeyword u) VAR_OPENS = Some kw \<Longrightarrow> P (openVar kw s)"
    and "currentVarSection s \<noteq> [] \<Longrightarrow> \<not> afterBegin s \<Longrightarrow> P (declareVar ol s)"
    and "afterBegin s \<Longrightarrow> P (codeLine t u s)"
    and "P s"
  shows "P (dispatch ol t u s)"
  unfolding dispatch_def using assms by (simp split: option.split)

lemma codeLine_cases [case_names caseOpen caseElse otherElse plain]:
  assumes "matchKeyword u ''CASE'' \<Longrightarrow>
             P (updCurrent (\<lambda>b. b\<lparr>hasCaseElse := mapSet (hasCaseElse b) (lineIdx s) False\<rparr>)
                  (pushControl ''CASE'' (markCode t u s)))"
    and "matchKeyword u ''ELSE'' \<Longrightarrow> controlStack s \<noteq> [] \<Longrightarrow>
           keyword (last (controlStack s)) = ''CASE'' \<Longrightarrow>
             P (updCurrent
                  (\<lambda>b. b\<lparr>hasCaseElse :=
                           mapSet (hasCaseElse b) (se_line (last (controlStack s))) True\<rparr>)
                  (markCode t u s))"
    and "matchKeyword u ''ELSE'' \<Longrightarrow> P (markCode t u s)"
    and "P (checkExit u (closeControl u (openLoop u (openIf u (markCode t u s)))))"
  shows "P (codeLine t u s)"
proof -
  have [simp]: "controlStack (markCode t u s) = controlStack s" "lineIdx (markCode t u s) = lineIdx s"
    by (simp_all add: markCode_def updCurrent_def split: option.split)
  show ?thesis unfolding codeLine_def Let_def using assms by simp
qed

subsection \<open>What each branch leaves alone\<close>

lemma frame_updCurrent [simp]:
  "variables (updCurrent f s) = variables s"
  "usedVariables (updCurrent f s) = usedVariables s"
  "unmatchedOpens (updCurrent f s) = unmatchedOpens s"
  "unmatchedCloses (updCurrent f s) = unmatchedCloses s"
  "exitOutsideLoop (updCurrent f s) = exitOutsideLoop s"
  "blockStack (updCurrent f s) = blockStack s"
  "varStack (updCurrent f s) = varStack s"
  "controlStack (updCurrent f s) = controlStack s"
  "currentBlock (updCurrent f s) = currentBlock s"
  "currentVarSection (updCurrent f s) = currentVarSection s"
  "inBlockComment (updCurrent f s) = inBlockComment s"
  "afterBegin (updCurrent f s) = afterBegin s"
  "lineIdx (updCurrent f s) = lineIdx s"
  "length (blocks (updCurrent f s)) = length (blocks s)"
  by (simp_all add: updCurrent_def split: option.split prod.split)

lemma frame_openBlock [simp]:
  "variables (openBlock kw ol s) = variables s"
  "usedVariables (openBlock kw ol s) = usedVariables s"
  "unmatchedOpens (openBlock kw ol s) = unmatchedOpens s"
  "unmatchedCloses (openBlock kw ol s) = unmatchedCloses s"
  "exitOutsideLoop (openBlock kw ol s) = exitOutsideLoop s"
  "varStack (openBlock kw ol s) = varStack s"
  "controlStack (openBlock kw ol s) = controlStack s"
  "currentVarSection (openBlock kw ol s) = currentVarSection s"
  "inBlockComment (openBlock kw ol s) = inBlockComment s"
  "lineIdx (openBlock kw ol s) = lineIdx s"
  by (simp_all add: openBlock_def split: option.split prod.split)

lemma frame_closeBlock [simp]:
  "variables (closeBlock kw s) = variables s"
  "usedVariables (closeBlock kw s) = usedVariables s"
  "unmatchedOpens (closeBlock kw s) = unmatchedOpens s"
  "exitOutsideLoop (closeBlock kw s) = exitOutsideLoop s"
  "varStack (closeBlock kw s) = varStack s"
  "controlStack (closeBlock kw s) = controlStack s"
  "currentVarSection (closeBlock kw s) = currentVarSection s"
  "inBlockComment (closeBlock kw s) = inBlockComment s"
  "lineIdx (closeBlock kw s) = lineIdx s"
  by (simp_all add: closeBlock_def split: option.split prod.split)

lemma frame_beginSection [simp]:
  "variables (beginSection s) = variables s"
  "usedVariables (beginSection s) = usedVariables s"
  "unmatchedOpens (beginSection s) = unmatchedOpens s"
  "unmatchedCloses (beginSection s) = unmatchedCloses s"
  "exitOutsideLoop (beginSection s) = exitOutsideLoop s"
  "blockStack (beginSection s) = blockStack s"
  "varStack (beginSection s) = varStack s"
  "controlStack (beginSection s) = controlStack s"
  "currentBlock (beginSection s) = currentBlock s"
  "currentVarSection (beginSection s) = currentVarSection s"
  "inBlockComment (beginSection s) = inBlockComment s"
  "lineIdx (beginSection s) = lineIdx s"
  by (simp_all add: beginSection_def split: option.split prod.split)

lemma frame_closeVar [simp]:
  "blocks (closeVar u s) = blocks s"
  "variables (closeVar u s) = variables s"
  "usedVariables (closeVar u s) = usedVariables s"
  "unmatchedOpens (closeVar u s) = unmatchedOpens s"
  "exitOutsideLoop (closeVar u s) = exitOutsideLoop s"
  "blockStack (closeVar u s) = blockStack s"
  "controlStack (closeVar u s) = controlStack s"
  "currentBlock (closeVar u s) = currentBlock s"
  "inBlockComment (closeVar u s) = inBlockComment s"
  "afterBegin (closeVar u s) = afterBegin s"
  "lineIdx (closeVar u s) = lineIdx s"
  by (simp_all add: closeVar_def split: option.split prod.split)

lemma frame_openVar [simp]:
  "blocks (openVar kw s) = blocks s"
  "variables (openVar kw s) = variables s"
  "usedVariables (openVar kw s) = usedVariables s"
  "unmatchedOpens (openVar kw s) = unmatchedOpens s"
  "unmatchedCloses (openVar kw s) = unmatchedCloses s"
  "exitOutsideLoop (openVar kw s) = exitOutsideLoop s"
  "blockStack (openVar kw s) = blockStack s"
  "controlStack (openVar kw s) = controlStack s"
  "currentBlock (openVar kw s) = currentBlock s"
  "inBlockComment (openVar kw s) = inBlockComment s"
  "afterBegin (openVar kw s) = afterBegin s"
  "lineIdx (openVar kw s) = lineIdx s"
  by (simp_all add: openVar_def split: option.split prod.split)

lemma frame_declareVar [simp]:
  "blocks (declareVar ol s) = blocks s"
  "usedVariables (declareVar ol s) = usedVariables s"
  "unmatchedOpens (declareVar ol s) = unmatchedOpens s"
  "unmatchedCloses (declareVar ol s) = unmatchedCloses s"
  "exitOutsideLoop (declareVar ol s) = exitOutsideLoop s"
  "blockStack (declareVar ol s) = blockStack s"
  "varStack (declareVar ol s) = varStack s"
  "controlStack (declareVar ol s) = controlStack s"
  "currentBlock (declareVar ol s) = currentBlock s"
  "currentVarSection (declareVar ol s) = currentVarSection s"
  "inBlockComment (declareVar ol s) = inBlockComment s"
  "afterBegin (declareVar ol s) = afterBegin s"
  "lineIdx (declareVar ol s) = lineIdx s"
  by (simp_all add: declareVar_def Let_def split: option.split prod.split)

lemma frame_pushControl [simp]:
  "blocks (pushControl kw s) = blocks s"
  "variables (pushControl kw s) = variables s"
  "usedVariables (pushControl kw s) = usedVariables s"
  "unmatchedOpens (pushControl kw s) = unmatchedOpens s"
  "unmatchedCloses (pushControl kw s) = unmatchedCloses s"
  "exitOutsideLoop (pushControl kw s) = exitOutsideLoop s"
  "blockStack (pushControl kw s) = blockStack s"
  "varStack (pushControl kw s) = varStack s"
  "currentBlock (pushControl kw s) = currentBlock s"
  "currentVarSection (pushControl kw s) = currentVarSection s"
  "inBlockComment (pushControl kw s) = inBlockComment s"
  "afterBegin (pushControl kw s) = afterBegin s"
  "lineIdx (pushControl kw s) = lineIdx s"
  by (simp_all add: pushControl_def split: option.split prod.split)

lemma frame_markCode [simp]:
  "variables (markCode t u s) = variables s"
  "usedVariables (markCode t u s) = usedVariables s"
  "unmatchedOpens (markCode t u s) = unmatchedOpens s"
  "unmatchedCloses (markCode t u s) = unmatchedCloses s"
  "exitOutsideLoop (markCode t u s) = exitOutsideLoop s"
  "blockStack (markCode t u s) = blockStack s"
  "varStack (markCode t u s) = varStack s"
  "controlStack (markCode t u s) = controlStack s"
  "currentBlock (markCode t u s) = currentBlock s"
  "currentVarSection (markCode t u s) = currentVarSection s"
  "inBlockComment (markCode t u s) = inBlockComment s"
  "afterBegin (markCode t u s) = afterBegin s"
  "lineIdx (markCode t u s) = lineIdx s"
  by (simp_all add: markCode_def split: option.split prod.split)

lemma frame_openIf [simp]:
  "blocks (openIf u s) = blocks s"
  "variables (openIf u s) = variables s"
  "usedVariables (openIf u s) = usedVariables s"
  "unmatchedOpens (openIf u s) = unmatchedOpens s"
  "unmatchedCloses (openIf u s) = unmatchedCloses s"
  "exitOutsideLoop (openIf u s) = exitOutsideLoop s"
  "blockStack (openIf u s) = blockStack s"
  "varStack (openIf u s) = varStack s"
  "currentBlock (openIf u s) = currentBlock s"
  "currentVarSection (openIf u s) = currentVarSection s"
  "inBlockComment (openIf u s) = inBlockComment s"
  "afterBegin (openIf u s) = afterBegin s"
  "lineIdx (openIf u s) = lineIdx s"
  by (simp_all add: openIf_def split: option.split prod.split)

lemma frame_openLoop [simp]:
  "blocks (openLoop u s) = blocks s"
  "variables (openLoop u s) = variables s"
  "usedVariables (openLoop u s) = usedVariables s"
  "unmatchedOpens (openLoop u s) = unmatchedOpens s"
  "unmatchedCloses (openLoop u s) = unmatchedCloses s"
  "exitOutsideLoop (openLoop u s) = exitOutsideLoop s"
  "blockStack (openLoop u s) = blockStack s"
  "varStack (openLoop u s) = varStack s"
  "currentBlock (openLoop u s) = currentBlock s"
  "currentVarSection (openLoop u s) = currentVarSection s"
  "inBlockComment (openLoop u s) = inBlockComment s"
  "afterBegin (openLoop u s) = afterBegin s"
  "lineIdx (openLoop u s) = lineIdx s"
  by (simp_all add: openLoop_def split: option.split prod.split)

lemma frame_closeControl [simp]:
  "blocks (closeControl u s) = blocks s"
  "variables (closeControl u s) = variables s"
  "usedVariables (closeControl u s) = usedVariables s"
  "unmatchedOpens (closeControl u s) = unmatchedOpens s"
  "exitOutsideLoop (closeControl u s) = exitOutsideLoop s"
  "blockStack (closeControl u s) = blockStack s"
  "varStack (closeControl u s) = varStack s"
  "currentBlock (closeControl u s) = currentBlock s"
  "currentVarSection (closeControl u s) = currentVarSection s"
  "inBlockComment (closeControl u s) = inBlockComment s"
  "afterBegin (closeControl u s) = afterBegin s"
  "lineIdx (closeControl u s) = lineIdx s"
  by (simp_all add: closeControl_def split: option.split prod.split)

lemma frame_checkExit [simp]:
  "blocks (checkExit u s) = blocks s"
  "variables (checkExit u s) = variables s"
  "usedVariables (checkExit u s) = usedVariables s"
  "unmatchedOpens (checkExit u s) = unmatchedOpens s"
  "unmatchedCloses (checkExit u s) = unmatchedCloses s"
  "blockStack (checkExit u s) = blockStack s"
  "varStack (checkExit u s) = varStack s"
  "controlStack (checkExit u s) = controlStack s"
  "currentBlock (checkExit u s) = currentBlock s"
  "currentVarSection (checkExit u s) = currentVarSection s"
  "inBlockComment (checkExit u s) = inBlockComment s"
  "afterBegin (checkExit u s) = afterBegin s"
  "lineIdx (checkExit u s) = lineIdx s"
  by (simp_all add: checkExit_def split: option.split prod.split)

lemma lineIdx_codeLine [simp]: "lineIdx (codeLine t u s) = lineIdx s"
  by (cases rule: codeLine_cases) simp_all

lemma lineIdx_dispatch [simp]: "lineIdx (dispatch ol t u s) = lineIdx s"
  by (cases rule: dispatch_cases) simp_all

lemma lineIdx_classify [simp]: "lineIdx (classify ol s) = lineIdx s"
  by (simp add: classify_def Let_def)

lemma lineIdx_step [simp]: "lineIdx (step s l) = Suc (lineIdx s)"
  by (simp add: step_def split: prod.split option.split)

lemma lineIdx_foldl_step [simp]: "lineIdx (foldl step s ls) = lineIdx s + length ls"
  by (induction ls arbitrary: s) simp_all

lemma lineIdx_scan [simp]: "lineIdx (scan ls) = length ls"
  by (simp add: scan_def initState_def)

lemma scan_snoc: "scan (ls @ [l]) = step (scan ls) l"
  by (simp add: scan_def)

lemma scan_append: "scan (ls @ ms) = foldl step (scan ls) ms"
  by (simp add: scan_def)

subsection \<open>Keywords\<close>





subsection \<open>The step of the loop, without its bookkeeping\<close>

lemma updCurrent_commute:
  "updCurrent f (s\<lparr>inBlockComment := x\<rparr>) = (updCurrent f s)\<lparr>inBlockComment := x\<rparr>"
  "updCurrent f (s\<lparr>usedVariables := y\<rparr>) = (updCurrent f s)\<lparr>usedVariables := y\<rparr>"
  by (simp_all add: updCurrent_def split: option.split)

lemma branches_commute_inBC:
  "openBlock kw ol (s\<lparr>inBlockComment := x\<rparr>) = (openBlock kw ol s)\<lparr>inBlockComment := x\<rparr>"
  "closeBlock kw (s\<lparr>inBlockComment := x\<rparr>) = (closeBlock kw s)\<lparr>inBlockComment := x\<rparr>"
  "beginSection (s\<lparr>inBlockComment := x\<rparr>) = (beginSection s)\<lparr>inBlockComment := x\<rparr>"
  "closeVar u (s\<lparr>inBlockComment := x\<rparr>) = (closeVar u s)\<lparr>inBlockComment := x\<rparr>"
  "openVar kw (s\<lparr>inBlockComment := x\<rparr>) = (openVar kw s)\<lparr>inBlockComment := x\<rparr>"
  "declareVar ol (s\<lparr>inBlockComment := x\<rparr>) = (declareVar ol s)\<lparr>inBlockComment := x\<rparr>"
  "pushControl kw (s\<lparr>inBlockComment := x\<rparr>) = (pushControl kw s)\<lparr>inBlockComment := x\<rparr>"
  "markCode t u (s\<lparr>inBlockComment := x\<rparr>) = (markCode t u s)\<lparr>inBlockComment := x\<rparr>"
  "openIf u (s\<lparr>inBlockComment := x\<rparr>) = (openIf u s)\<lparr>inBlockComment := x\<rparr>"
  "openLoop u (s\<lparr>inBlockComment := x\<rparr>) = (openLoop u s)\<lparr>inBlockComment := x\<rparr>"
  "closeControl u (s\<lparr>inBlockComment := x\<rparr>) = (closeControl u s)\<lparr>inBlockComment := x\<rparr>"
  "checkExit u (s\<lparr>inBlockComment := x\<rparr>) = (checkExit u s)\<lparr>inBlockComment := x\<rparr>"
  by (simp_all add: openBlock_def closeBlock_def beginSection_def closeVar_def openVar_def
      declareVar_def currentBlockName_def pushControl_def markCode_def openIf_def openLoop_def
      closeControl_def checkExit_def Let_def updCurrent_commute split: option.split prod.split)

lemma branches_commute_used:
  "openBlock kw ol (s\<lparr>usedVariables := x\<rparr>) = (openBlock kw ol s)\<lparr>usedVariables := x\<rparr>"
  "closeBlock kw (s\<lparr>usedVariables := x\<rparr>) = (closeBlock kw s)\<lparr>usedVariables := x\<rparr>"
  "beginSection (s\<lparr>usedVariables := x\<rparr>) = (beginSection s)\<lparr>usedVariables := x\<rparr>"
  "closeVar u (s\<lparr>usedVariables := x\<rparr>) = (closeVar u s)\<lparr>usedVariables := x\<rparr>"
  "openVar kw (s\<lparr>usedVariables := x\<rparr>) = (openVar kw s)\<lparr>usedVariables := x\<rparr>"
  "declareVar ol (s\<lparr>usedVariables := x\<rparr>) = (declareVar ol s)\<lparr>usedVariables := x\<rparr>"
  "pushControl kw (s\<lparr>usedVariables := x\<rparr>) = (pushControl kw s)\<lparr>usedVariables := x\<rparr>"
  "markCode t u (s\<lparr>usedVariables := x\<rparr>) = (markCode t u s)\<lparr>usedVariables := x\<rparr>"
  "openIf u (s\<lparr>usedVariables := x\<rparr>) = (openIf u s)\<lparr>usedVariables := x\<rparr>"
  "openLoop u (s\<lparr>usedVariables := x\<rparr>) = (openLoop u s)\<lparr>usedVariables := x\<rparr>"
  "closeControl u (s\<lparr>usedVariables := x\<rparr>) = (closeControl u s)\<lparr>usedVariables := x\<rparr>"
  "checkExit u (s\<lparr>usedVariables := x\<rparr>) = (checkExit u s)\<lparr>usedVariables := x\<rparr>"
  by (simp_all add: openBlock_def closeBlock_def beginSection_def closeVar_def openVar_def
      declareVar_def currentBlockName_def pushControl_def markCode_def openIf_def openLoop_def
      closeControl_def checkExit_def Let_def updCurrent_commute split: option.split prod.split)

lemma codeLine_commute:
  "codeLine t u (s\<lparr>inBlockComment := x\<rparr>) = (codeLine t u s)\<lparr>inBlockComment := x\<rparr>"
  "codeLine t u (s\<lparr>usedVariables := y\<rparr>) = (codeLine t u s)\<lparr>usedVariables := y\<rparr>"
  by (simp_all add: codeLine_def Let_def branches_commute_inBC branches_commute_used
      updCurrent_commute)

lemma dispatch_perform:
  "dispatch ol t u s =
     perform (branchOf t u (currentBlock s \<noteq> None) (currentVarSection s \<noteq> []) (afterBegin s))
       ol t u s"
proof -
  define c1 where "c1 = (prefix ''{'' t \<and> currentBlock s \<noteq> None)"
  define c2 where "c2 = (prefix ''VERSION'' u \<and> currentBlock s \<noteq> None)"
  define f1 where "f1 = find (matchKeyword u) (map fst BLOCK_PAIRS)"
  define f2 where "f2 = find (matchKeyword u) (map fst BLOCK_END_TO_OPEN)"
  define c3 where "c3 = (u = ''BEGIN'')"
  define c4 where "c4 = (matchKeyword u ''END_VAR'' \<or> matchKeyword u ''END_STRUCT'')"
  define c5 where "c5 = (prefix ''VAR'' u \<and> includes_str u ''CONSTANT'' \<and> \<not> prefix ''VAR_'' u)"
  define f3 where "f3 = find (matchKeyword u) VAR_OPENS"
  define c6 where "c6 = (currentVarSection s \<noteq> [] \<and> \<not> afterBegin s)"
  note defs = c1_def c2_def f1_def f2_def c3_def c4_def c5_def f3_def c6_def
  have d: "dispatch ol t u s =
     (if c1 then updCurrent (\<lambda>b. b\<lparr>hasPragma := True\<rparr>) s
      else if c2 then updCurrent (\<lambda>b. b\<lparr>hasVersion := True\<rparr>) s
      else case f1 of Some openKw \<Rightarrow> openBlock openKw ol s
        | None \<Rightarrow> (case f2 of Some closeKw \<Rightarrow> closeBlock closeKw s
        | None \<Rightarrow> if c3 then beginSection s else if c4 then closeVar u s
          else if c5 then openVar ''VAR_CONSTANT'' s
          else (case f3 of Some varKw \<Rightarrow> openVar varKw s
             | None \<Rightarrow> if c6 then declareVar ol s else if afterBegin s then codeLine t u s else s)))"
    unfolding dispatch_def defs ..
  have b: "branchOf t u (currentBlock s \<noteq> None) (currentVarSection s \<noteq> []) (afterBegin s) =
     (if c1 then Pragma
      else if c2 then Version
      else case f1 of Some openKw \<Rightarrow> BlockOpen openKw
        | None \<Rightarrow> (case f2 of Some closeKw \<Rightarrow> BlockClose closeKw
        | None \<Rightarrow> if c3 then BeginLine else if c4 then VarClose
          else if c5 then VarOpen ''VAR_CONSTANT''
          else (case f3 of Some varKw \<Rightarrow> VarOpen varKw
             | None \<Rightarrow> if c6 then Declaration else if afterBegin s then Code else Ignored)))"
    unfolding branchOf_def defs ..
  show ?thesis unfolding d b
    by (simp split: option.split)
qed

lemma perform_commute:
  "perform b ol t u (s\<lparr>inBlockComment := x\<rparr>) = (perform b ol t u s)\<lparr>inBlockComment := x\<rparr>"
  "perform b ol t u (s\<lparr>usedVariables := y\<rparr>) = (perform b ol t u s)\<lparr>usedVariables := y\<rparr>"
  by (cases b; simp add: branches_commute_inBC branches_commute_used updCurrent_commute
      codeLine_commute)+

lemma dispatch_commute:
  "dispatch ol t u (s\<lparr>inBlockComment := x\<rparr>) = (dispatch ol t u s)\<lparr>inBlockComment := x\<rparr>"
  "dispatch ol t u (s\<lparr>usedVariables := y\<rparr>) = (dispatch ol t u s)\<lparr>usedVariables := y\<rparr>"
  by (simp_all add: dispatch_perform perform_commute)

lemma step_effect:
  "\<exists>uv ibc. step s l = (effect l s)\<lparr>usedVariables := uv, inBlockComment := ibc,
                                      lineIdx := Suc (lineIdx s)\<rparr>"
proof (cases "preprocess (inBlockComment s) l")
  case (Pair o1 ibc)
  show ?thesis
  proof (cases "codeOf (inBlockComment s) l")
    case None
    then have "step s l = s\<lparr>inBlockComment := ibc, lineIdx := Suc (lineIdx s)\<rparr>"
      using Pair by (auto simp: step_def codeOf_def classify_def Let_def split: option.splits)
    moreover have "effect l s = s" using None by (simp add: effect_def)
    ultimately have "step s l = (effect l s)\<lparr>usedVariables := usedVariables s,
        inBlockComment := ibc, lineIdx := Suc (lineIdx s)\<rparr>"
      by simp
    then show ?thesis by blast
  next
    case (Some ol)
    then have o1: "o1 = Some ol" and ne: "trim (stripStrings ol) \<noteq> []"
      using Pair by (auto simp: codeOf_def split: option.splits if_splits)
    have "step s l = (effect l s)\<lparr>usedVariables := usedVariables s \<union> set (map toLowerCase (hashVars ol)),
        inBlockComment := ibc, lineIdx := Suc (lineIdx s)\<rparr>"
      using Pair o1 ne Some
      by (simp add: step_def classify_def Let_def effect_def dispatch_commute)
    then show ?thesis by blast
  qed
qed

lemma step_fields [simp]:
  "blocks (step s l) = blocks (effect l s)"
  "variables (step s l) = variables (effect l s)"
  "unmatchedCloses (step s l) = unmatchedCloses (effect l s)"
  "exitOutsideLoop (step s l) = exitOutsideLoop (effect l s)"
  "blockStack (step s l) = blockStack (effect l s)"
  "varStack (step s l) = varStack (effect l s)"
  "controlStack (step s l) = controlStack (effect l s)"
  "currentBlock (step s l) = currentBlock (effect l s)"
  "currentVarSection (step s l) = currentVarSection (effect l s)"
  "afterBegin (step s l) = afterBegin (effect l s)"
  using step_effect[of s l] by auto

subsection \<open>Exit entries\<close>

lemma frame_codeLine [simp]:
  "variables (codeLine t u s) = variables s"
  "usedVariables (codeLine t u s) = usedVariables s"
  "unmatchedOpens (codeLine t u s) = unmatchedOpens s"
  "blockStack (codeLine t u s) = blockStack s"
  "varStack (codeLine t u s) = varStack s"
  "currentBlock (codeLine t u s) = currentBlock s"
  "currentVarSection (codeLine t u s) = currentVarSection s"
  "inBlockComment (codeLine t u s) = inBlockComment s"
  "afterBegin (codeLine t u s) = afterBegin s"
  "length (blocks (codeLine t u s)) = length (blocks s)"
  by (simp_all add: codeLine_def Let_def markCode_def)



lemma toUpperCase_Nil [simp]: "(toUpperCase t = []) = (t = [])"
  by (simp add: toUpperCase_def)








subsection \<open>The blocks of the model during the scan\<close>







lemma effect_perform:
  "\<exists>b ol t u. effect l s = perform b ol t u s \<and>
     (b \<noteq> Ignored \<longrightarrow> codeOf (inBlockComment s) l = Some ol \<and> t = trim (stripStrings ol) \<and>
        u = toUpperCase t \<and>
        b = branchOf t u (currentBlock s \<noteq> None) (currentVarSection s \<noteq> []) (afterBegin s))"
proof (cases "codeOf (inBlockComment s) l")
  case None
  then have "effect l s = perform Ignored [] [] [] s" by (simp add: effect_def)
  then show ?thesis by blast
next
  case (Some ol)
  then show ?thesis by (auto simp: effect_def dispatch_perform)
qed






subsection \<open>Control-flow frames and the else-tracking maps\<close>

lemma controlStack_codeLine_lines:
  "\<forall>e \<in> set (controlStack (codeLine t u s)). e \<in> set (controlStack s) \<or> se_line e = lineIdx s"
proof -
  have pop: "set (butlast xs) \<subseteq> set xs" for xs :: "StackEntry list"
    by (auto dest: in_set_butlastD)
  have 1: "\<forall>e \<in> set (controlStack (openIf u s')). e \<in> set (controlStack s') \<or> se_line e = lineIdx s'" for s'
    by (auto simp: openIf_def pushControl_def mkEntry_def)
  have 2: "\<forall>e \<in> set (controlStack (openLoop u s')). e \<in> set (controlStack s') \<or> se_line e = lineIdx s'" for s'
    by (auto simp: openLoop_def pushControl_def mkEntry_def split: option.split)
  have 3: "\<forall>e \<in> set (controlStack (closeControl u s')). e \<in> set (controlStack s')" for s'
    using pop by (auto simp: closeControl_def split: option.split)
  have plain: "\<forall>e \<in> set (controlStack (checkExit u (closeControl u (openLoop u (openIf u s'))))).
      e \<in> set (controlStack s') \<or> se_line e = lineIdx s'" for s'
    using 1[of s'] 2[of "openIf u s'"] 3[of "openLoop u (openIf u s')"] by fastforce
  show ?thesis
    using plain[of "markCode t u s"]
    by (auto simp: codeLine_def Let_def pushControl_def mkEntry_def)
qed

lemma controlStack_perform_lines:
  "\<forall>e \<in> set (controlStack (perform b ol t u s)). e \<in> set (controlStack s) \<or> se_line e = lineIdx s"
  by (cases b) (simp_all add: controlStack_codeLine_lines)

lemma frames_before_step:
  assumes "\<forall>e \<in> set (controlStack s). se_line e < lineIdx s"
  shows "\<forall>e \<in> set (controlStack (step s l)). se_line e < lineIdx (step s l)"
proof -
  obtain b ol t u where e: "effect l s = perform b ol t u s"
    using effect_perform by blast
  show ?thesis
    unfolding step_fields e lineIdx_step
    using assms controlStack_perform_lines[of b ol t u s] by fastforce
qed

lemma frames_before_foldl:
  assumes "\<forall>e \<in> set (controlStack s). se_line e < lineIdx s"
  shows "\<forall>e \<in> set (controlStack (foldl step s ls)). se_line e < lineIdx (foldl step s ls)"
  using assms
proof (induction ls arbitrary: s)
  case Nil
  then show ?case by simp
next
  case (Cons l ls)
  show ?case
    unfolding foldl_Cons by (rule Cons.IH[OF frames_before_step[OF Cons.prems]])
qed

lemma frames_before: "\<forall>e \<in> set (controlStack (scan ls)). se_line e < length ls"
  using frames_before_foldl[of initState ls] by (simp add: scan_def initState_def)







subsection \<open>Counting the entries of a map\<close>







subsection \<open>Lines of a CASE statement\<close>





section \<open>Blanking and the length of the active line\<close>

lemma indexOf_bound: "indexOf s pat = Some k \<Longrightarrow> k + length pat \<le> length s"
proof (induction s arbitrary: k)
  case Nil
  then show ?case by (simp split: if_splits)
next
  case (Cons c cs)
  show ?case
  proof (cases "prefix pat (c # cs)")
    case True
    with Cons.prems show ?thesis by (auto dest: prefix_length_le)
  next
    case False
    with Cons.prems obtain j where "indexOf cs pat = Some j" "k = Suc j" by auto
    with Cons.IH show ?thesis by fastforce
  qed
qed


lemma blanks_refl: "blanks l l"
  by (simp add: blanks_def list_all2_refl)

lemma blanks_trans: "blanks a b \<Longrightarrow> blanks b c \<Longrightarrow> blanks a c"
  unfolding blanks_def
  using list_all2_trans[of "\<lambda>x y. x = y \<or> x = SPC" "\<lambda>x y. x = y \<or> x = SPC" "\<lambda>x y. x = y \<or> x = SPC" a b c]
  by auto

lemma blanks_replicate: "n \<le> length l \<Longrightarrow> blanks (replicate n SPC @ drop n l) l"
proof -
  assume n: "n \<le> length l"
  have "list_all2 (\<lambda>x y. x = y \<or> x = SPC) (replicate n SPC) (take n l)"
    using n by (simp add: list_all2_conv_all_nth)
  moreover have "list_all2 (\<lambda>x y. x = y \<or> x = SPC) (drop n l) (drop n l)"
    by (simp add: list_all2_refl)
  ultimately have "list_all2 (\<lambda>x y. x = y \<or> x = SPC) (replicate n SPC @ drop n l) (take n l @ drop n l)"
    by (rule list_all2_appendI)
  then show ?thesis by (simp add: blanks_def)
qed

lemma blanks_Cons: "blanks a l \<Longrightarrow> blanks (c # a) (c # l)"
  by (simp add: blanks_def)

lemma blanks_append: "blanks a l \<Longrightarrow> blanks b m \<Longrightarrow> blanks (a @ b) (l @ m)"
  by (simp add: blanks_def list_all2_appendI)

lemma blanks_length: "blanks a l \<Longrightarrow> length a = length l"
  by (simp add: blanks_def list_all2_lengthD)

lemma blanks_nth: "blanks a l \<Longrightarrow> i < length a \<Longrightarrow> a ! i = l ! i \<or> a ! i = SPC"
  by (auto simp: blanks_def list_all2_conv_all_nth)

lemma blanks_take: "blanks a l \<Longrightarrow> blanks (take k a) (take k l)"
  by (simp add: blanks_def list_all2_takeI)

lemma sbc_skip:
  "\<not> prefix ''(*'' (c # cs) \<or> indexOf (drop 1 cs) ''*)'' = None \<Longrightarrow>
   stripBlockComments (c # cs) = c # stripBlockComments cs"
  by auto

lemma sbc_hit:
  "prefix ''(*'' (c # cs) \<Longrightarrow> indexOf (drop 1 cs) ''*)'' = Some k \<Longrightarrow>
   stripBlockComments (c # cs) = replicate (k + 4) SPC @ stripBlockComments (drop (k + 3) cs)"
  by (simp del: replicate_Suc replicate.simps)

lemma blanks_stripBlockComments: "blanks (stripBlockComments l) l"
proof (induction "length l" arbitrary: l rule: less_induct)
  case less
  show ?case
  proof (cases l)
    case Nil
    then show ?thesis by (simp add: blanks_def)
  next
    case (Cons c cs)
    show ?thesis
    proof (cases "prefix ''(*'' (c # cs) \<and> indexOf (drop 1 cs) ''*)'' \<noteq> None")
      case False
      then have "stripBlockComments (c # cs) = c # stripBlockComments cs"
        by (intro sbc_skip) auto
      moreover have "blanks (stripBlockComments cs) cs"
        using less Cons by simp
      ultimately show ?thesis using Cons by (simp only: blanks_Cons)
    next
      case True
      then obtain k where pre: "prefix ''(*'' (c # cs)" and k: "indexOf (drop 1 cs) ''*)'' = Some k"
        by auto
      from pre obtain r where cs: "cs = CHR ''*'' # r" by (cases cs) auto
      from indexOf_bound[OF k] cs have bound: "k + 4 \<le> length (c # cs)" by simp
      have dr: "drop (k + 4) (c # cs) = drop (k + 3) cs"
        by (simp add: numeral_eq_Suc)
      have "blanks (replicate (k + 4) SPC @ drop (k + 4) (c # cs)) (c # cs)"
        using bound by (rule blanks_replicate)
      moreover have "blanks (stripBlockComments (drop (k + 3) cs)) (drop (k + 3) cs)"
        using less Cons by simp
      then have "blanks (replicate (k + 4) SPC @ stripBlockComments (drop (k + 3) cs))
                        (replicate (k + 4) SPC @ drop (k + 4) (c # cs))"
        unfolding dr by (intro blanks_append blanks_refl)
      ultimately show ?thesis
        unfolding Cons sbc_hit[OF pre k] by (rule blanks_trans[rotated])
    qed
  qed
qed

lemma bq_skip:
  "c \<noteq> q \<or> indexOf cs [q] = None \<Longrightarrow> blankQuoted q (c # cs) = c # blankQuoted q cs"
  by auto

lemma bq_hit:
  "indexOf cs [q] = Some k \<Longrightarrow>
   blankQuoted q (q # cs) = q # replicate k SPC @ q # blankQuoted q (drop (k + 1) cs)"
  by simp

lemma indexOf_char_nth: "indexOf s [q] = Some k \<Longrightarrow> s ! k = q"
proof (induction s arbitrary: k)
  case Nil
  then show ?case by simp
next
  case (Cons c cs)
  then show ?case by (cases "c = q") auto
qed

lemma blanks_blankQuoted: "blanks (blankQuoted q l) l"
proof (induction "length l" arbitrary: l rule: less_induct)
  case less
  show ?case
  proof (cases l)
    case Nil
    then show ?thesis by (simp add: blanks_def)
  next
    case (Cons c cs)
    show ?thesis
    proof (cases "c = q \<and> indexOf cs [q] \<noteq> None")
      case False
      then have "blankQuoted q (c # cs) = c # blankQuoted q cs"
        by (intro bq_skip) auto
      moreover have "blanks (blankQuoted q cs) cs"
        using less Cons by simp
      ultimately show ?thesis using Cons by (simp only: blanks_Cons)
    next
      case True
      then obtain k where c: "c = q" and k: "indexOf cs [q] = Some k" by auto
      from indexOf_bound[OF k] have bound: "k < length cs" by simp
      have split: "cs = take k cs @ q # drop (k + 1) cs"
        using id_take_nth_drop[OF bound] indexOf_char_nth[OF k] by simp
      have 1: "blanks (replicate k SPC) (take k cs)"
        using bound by (simp add: blanks_def list_all2_conv_all_nth)
      have 2: "blanks (blankQuoted q (drop (k + 1) cs)) (drop (k + 1) cs)"
        using less Cons by simp
      have "blanks (q # replicate k SPC @ q # blankQuoted q (drop (k + 1) cs))
                   (q # take k cs @ q # drop (k + 1) cs)"
        by (intro blanks_Cons blanks_append 1 2)
      then show ?thesis
        unfolding Cons c bq_hit[OF k] using split by simp
    qed
  qed
qed

lemma blanks_stripStrings: "blanks (stripStrings l) l"
  unfolding stripStrings_def by (blast intro: blanks_trans blanks_blankQuoted)

lemma blanks_closeBlockComment:
  assumes "closeBlockComment l = Some l1"
  shows "blanks l1 l"
proof -
  from assms obtain k where k: "indexOf l ''*)'' = Some k"
    and l1: "l1 = replicate (k + 2) SPC @ drop (k + 2) l"
    by (auto simp: closeBlockComment_def split: option.splits)
  from indexOf_bound[OF k] have "k + 2 \<le> length l" by simp
  then show ?thesis unfolding l1 by (rule blanks_replicate)
qed

lemma blanks_take_self: "blanks (take k l) (take (min (length l) k) l)"
proof -
  have "take (min (length l) k) l = take k l"
    by (cases "k \<le> length l") (simp_all add: min_def)
  then show ?thesis by (simp add: blanks_refl)
qed

lemma blanks_cutOpenComment:
  "blanks (fst (cutOpenComment l)) (take (length (fst (cutOpenComment l))) l)"
  unfolding cutOpenComment_def
  by (cases "indexOf l ''(*''") (simp_all add: blanks_refl blanks_take_self)

lemma blanks_cutLineComment: "blanks (cutLineComment l) (take (length (cutLineComment l)) l)"
  unfolding cutLineComment_def
  by (cases "lineCommentIndex l") (simp_all add: blanks_refl blanks_take_self)

lemma blanks_prefix_trans:
  assumes "blanks a (take (length a) b)" "blanks b (take (length b) c)"
  shows "blanks a (take (length a) c)"
proof -
  from assms(1) have la: "length a \<le> length b" by (auto dest!: blanks_length)
  from assms(2) have lb: "length b \<le> length c" by (auto dest!: blanks_length)
  from blanks_take[OF assms(2), of "length a"] la
  have "blanks (take (length a) b) (take (length a) c)" by (simp add: min_def)
  with assms(1) show ?thesis by (rule blanks_trans)
qed

lemma blanks_full: "blanks a b \<Longrightarrow> blanks a (take (length a) b)"
  by (frule blanks_length) simp

lemma blanks_activeLine:
  assumes "activeLine inBC l = Some a"
  shows "blanks a (take (length a) l)"
proof -
  from assms obtain l3 ibc where st: "blockCommentStages inBC l = Some (l3, ibc)"
    and a: "a = stripStrings (cutLineComment l3)"
    by (auto simp: activeLine_def preprocess_def split: option.splits)
  obtain l1 where l1: "(if inBC then closeBlockComment l else Some l) = Some l1"
    and l3: "l3 = fst (cutOpenComment (stripBlockComments l1))"
    using st by (auto simp: blockCommentStages_def split: option.splits)
  have b1: "blanks l1 l" using l1 by (auto split: if_splits simp: blanks_refl blanks_closeBlockComment)
  have b2: "blanks (stripBlockComments l1) l" using blanks_stripBlockComments b1 by (rule blanks_trans)
  have b3: "blanks l3 (take (length l3) l)"
    unfolding l3 using blanks_cutOpenComment blanks_full[OF b2] by (rule blanks_prefix_trans)
  have b4: "blanks (cutLineComment l3) (take (length (cutLineComment l3)) l)"
    using blanks_cutLineComment b3 by (rule blanks_prefix_trans)
  show ?thesis unfolding a
    using blanks_full[OF blanks_stripStrings] b4 by (rule blanks_prefix_trans)
qed

text \<open>
  Claim C3, as amended. The stages that blank (the end of a comment that spans lines,
  the same-line block comments, the string interiors) keep the length of the line. The
  two stages that remove a comment to the end of the line (an unterminated block-comment
  opener, a line comment) cut the line there instead. So the active line is never longer
  than the physical line, and at each of its columns it has the character of the
  physical line or a space: column offsets into the physical line remain valid.
\<close>

theorem preprocessing_keeps_columns:
  "length (stripBlockComments l) = length l \<and>
   length (stripStrings l) = length l \<and>
   (\<forall>l1. closeBlockComment l = Some l1 \<longrightarrow> length l1 = length l) \<and>
   (\<forall>a. activeLine inBC l = Some a \<longrightarrow>
      length a \<le> length l \<and> (\<forall>i < length a. a ! i = l ! i \<or> a ! i = SPC))"
proof (intro conjI allI impI)
  show "length (stripBlockComments l) = length l"
    using blanks_stripBlockComments by (rule blanks_length)
  show "length (stripStrings l) = length l"
    using blanks_stripStrings by (rule blanks_length)
next
  fix l1 assume "closeBlockComment l = Some l1"
  then show "length l1 = length l" by (intro blanks_length blanks_closeBlockComment)
next
  fix a assume "activeLine inBC l = Some a"
  then have b: "blanks a (take (length a) l)" by (rule blanks_activeLine)
  then show "length a \<le> length l" by (auto dest!: blanks_length)
  fix i assume "i < length a"
  with blanks_nth[OF b this] show "a ! i = l ! i \<or> a ! i = SPC" by simp
qed

text \<open>
  Claim C3 as stated fails: a line comment is cut off, not blanked, so the active line
  is shorter than the physical line.
\<close>

theorem active_line_truncated_counterexample:
  "activeLine False ''x := 1; // note'' = Some ''x := 1; '' \<and>
   length ''x := 1; '' \<noteq> length ''x := 1; // note''"
  by code_simp

text \<open>
  Witness for C3: a line that closes a comment, holds a string literal and ends in a
  line comment.
\<close>

theorem preprocessing_keeps_columns_witness:
  "activeLine True (''a *) b := '' @ [SQ] @ ''x'' @ [SQ] @ ''; // c'') =
     Some (''     b := '' @ [SQ] @ '' '' @ [SQ] @ ''; '') \<and>
   length (''     b := '' @ [SQ] @ '' '' @ [SQ] @ ''; '') \<le>
     length (''a *) b := '' @ [SQ] @ ''x'' @ [SQ] @ ''; // c'')"
proof -
  have a: "activeLine True (''a *) b := '' @ [SQ] @ ''x'' @ [SQ] @ ''; // c'') =
     Some (''     b := '' @ [SQ] @ '' '' @ [SQ] @ ''; '')"
    by code_simp
  from preprocessing_keeps_columns[of "''a *) b := '' @ [SQ] @ ''x'' @ [SQ] @ ''; // c''" True] a
  have "length (''     b := '' @ [SQ] @ '' '' @ [SQ] @ ''; '') \<le>
     length (''a *) b := '' @ [SQ] @ ''x'' @ [SQ] @ ''; // c'')"
    by blast
  with a show ?thesis by (rule conjI)
qed

section \<open>The unused-variable rule and variables without a block\<close>

lemma find_None_name:
  "\<forall>b \<in> set bs. b_name b \<noteq> nm \<Longrightarrow> find (\<lambda>b. b_name b = nm) bs = None"
  by (simp add: find_None_iff)

lemma reportsUnused_variables [simp]:
  "reportsUnused (result\<lparr>variables := vs\<rparr>) = reportsUnused result"
  by (simp add: fun_eq_iff reportsUnused_def)

text \<open>
  Claim C4, as amended. A variable whose owning block name matches no block of the model
  is not excluded from the unused-variable rule: only the exemption for data blocks and
  user types needs a block, and it does not apply. Where the variable stands in the list,
  the rule emits its warning exactly when the section is not \<open>VAR_OUTPUT\<close> and the
  lower-cased name is not in the usage set; the other variables are treated as before.
  The rule is a total function: no input makes it fail.
\<close>

theorem unused_rule_keeps_variable_without_block:
  assumes "variables result = pre @ v # post"
    and "\<forall>b \<in> set (blocks result). b_name b \<noteq> block v"
  shows "ruleUnusedVariables result =
           ruleUnusedVariables (result\<lparr>variables := pre\<rparr>) @
           (if v_section v \<noteq> ''VAR_OUTPUT'' \<and> toLowerCase (v_name v) \<notin> usedVariables result
            then [unusedWarning v] else []) @
           ruleUnusedVariables (result\<lparr>variables := post\<rparr>)"
proof -
  have "find (\<lambda>b. b_name b = block v) (blocks result) = None"
    using assms(2) by (rule find_None_name)
  then have "reportsUnused result v =
      (v_section v \<noteq> ''VAR_OUTPUT'' \<and> toLowerCase (v_name v) \<notin> usedVariables result)"
    by (simp add: reportsUnused_def)
  then show ?thesis
    using assms(1) by (simp add: ruleUnusedVariables_def)
qed


lemma parse_var_outside_block:
  "parse text_var_outside_block =
     \<lparr>blocks = [],
      variables = [\<lparr>v_name = ''ghost'', v_type = ''Int'', v_section = ''VAR'', block = [],
                    v_line = 1, v_col = 0\<rparr>],
      usedVariables = {}, unmatchedOpens = [], unmatchedCloses = [], exitOutsideLoop = []\<rparr>"
  by code_simp

text \<open>
  Claim C4 as stated fails: a variable declared outside any block has an owning block
  name that matches no block, and the rule reports it.
\<close>

theorem unused_rule_reports_variable_without_block_counterexample:
  "blocks (parse text_var_outside_block) = [] \<and>
   map block (variables (parse text_var_outside_block)) = [[]] \<and>
   ruleUnusedVariables (parse text_var_outside_block) =
     [\<lparr>d_line = 1, d_col = 0,
       message = ''Variable '' @ [SQ] @ ''ghost'' @ [SQ] @ '' is declared but never used'',
       severity = Warning, code = ''SCL101''\<rparr>]"
  unfolding parse_var_outside_block by code_simp

text \<open>Witness for C4: the same model, whose only variable has no block.\<close>

theorem unused_rule_keeps_variable_without_block_witness:
  "ruleUnusedVariables (parse text_var_outside_block) =
     ruleUnusedVariables ((parse text_var_outside_block)\<lparr>variables := []\<rparr>) @
     [unusedWarning \<lparr>v_name = ''ghost'', v_type = ''Int'', v_section = ''VAR'', block = [],
                     v_line = 1, v_col = 0\<rparr>] @
     ruleUnusedVariables ((parse text_var_outside_block)\<lparr>variables := []\<rparr>)"
  using unused_rule_keeps_variable_without_block[of "parse text_var_outside_block" "[]"
      "\<lparr>v_name = ''ghost'', v_type = ''Int'', v_section = ''VAR'', block = [],
                     v_line = 1, v_col = 0\<rparr>" "[]"]
  unfolding parse_var_outside_block by simp

section \<open>The keyword rule and the \<open>IF\<close> opener\<close>

text \<open>
  Claim C5: the scanner recognises a control-flow opener exactly when the keyword rule
  holds, so that an \<open>IF\<close> followed by a tab pushes a frame. The code does not do this
  for \<open>IF\<close>: the line of the block below matches the keyword \<open>IF\<close> by
  \<^const>\<open>matchKeyword\<close>, no frame is pushed, and the \<open>END_IF\<close> that closes it is recorded as
  an unmatched close. With a space after \<open>IF\<close> the frame is pushed, and a \<open>FOR\<close>
  followed by a tab is opened.
\<close>

theorem if_followed_by_tab_is_not_opened:
  "splitLines text_if_tab ! 2 = ''IF'' @ [TAB] @ ''#x THEN'' \<and>
   matchKeyword (toUpperCase (trim (''IF'' @ [TAB] @ ''#x THEN''))) ''IF'' \<and>
   controlStack (scan (take 3 (splitLines text_if_tab))) = [] \<and>
   unmatchedOpens (parse text_if_tab) = [] \<and>
   unmatchedCloses (parse text_if_tab) = [mkEntry ''END_IF'' 3] \<and>
   controlStack (scan [''BEGIN'', ''IF #x THEN'']) = [mkEntry ''IF'' 1] \<and>
   controlStack (scan [''BEGIN'', ''FOR'' @ [TAB] @ ''#i := 1 TO 2 DO'']) = [mkEntry ''FOR'' 1]"
  by code_simp

section \<open>Blocks close after they open\<close>

lemma in_set_update: "b \<in> set (xs[i := y]) \<Longrightarrow> (b = y \<and> i < length xs) \<or> b \<in> set xs"
  by (metis in_set_conv_nth length_list_update nth_list_update_eq nth_list_update_neq)

lemma blocksClosedLater_mono: "blocksClosedLater n bs \<Longrightarrow> n \<le> m \<Longrightarrow> blocksClosedLater m bs"
  by (fastforce simp: blocksClosedLater_def)

lemma blocksClosedLater_updCurrent:
  assumes inv: "blocksClosedLater n (blocks s)"
    and line: "\<And>b. b_line (f b) = b_line b"
    and close: "\<And>b. b_line b < n \<Longrightarrow> endLine (f b) = endLine b \<or> int (b_line b) < endLine (f b)"
  shows "blocksClosedLater n (blocks (updCurrent f s))"
proof (cases "currentBlock s")
  case None
  with inv show ?thesis by (simp add: updCurrent_def)
next
  case (Some i)
  have "b_line b < n \<and> (endLine b = - 1 \<or> int (b_line b) < endLine b)"
    if "b \<in> set ((blocks s)[i := f (blocks s ! i)])" for b
  proof -
    from in_set_update[OF that]
    show ?thesis
    proof
      assume new: "b = f (blocks s ! i) \<and> i < length (blocks s)"
      define old where "old = blocks s ! i"
      from new have "old \<in> set (blocks s)" by (simp add: old_def)
      with inv have 1: "b_line old < n" and 2: "endLine old = - 1 \<or> int (b_line old) < endLine old"
        by (simp_all add: blocksClosedLater_def)
      from new have b: "b = f old" by (simp add: old_def)
      from close[OF 1] have "endLine (f old) = endLine old \<or> int (b_line old) < endLine (f old)" .
      with 1 2 show ?thesis unfolding b line by presburger
    next
      assume "b \<in> set (blocks s)"
      with inv show ?thesis by (simp add: blocksClosedLater_def)
    qed
  qed
  then show ?thesis
    using Some by (simp add: updCurrent_def blocksClosedLater_def)
qed

lemma blocksClosedLater_codeLine:
  assumes "blocksClosedLater n (blocks s)"
  shows "blocksClosedLater n (blocks (codeLine t u s))"
proof -
  have mark: "blocksClosedLater n (blocks (markCode t u s))"
    using assms by (simp add: markCode_def blocksClosedLater_updCurrent)
  have plain: "blocks (checkExit u (closeControl u (openLoop u (openIf u s')))) = blocks s'" for s'
    by simp
  show ?thesis
  proof (rule codeLine_cases, goal_cases)
    case 1
    have "blocksClosedLater n (blocks (pushControl ''CASE'' (markCode t u s)))"
      using mark by simp
    then show ?case by (rule blocksClosedLater_updCurrent) simp_all
  next
    case 2
    from mark show ?case by (rule blocksClosedLater_updCurrent) simp_all
  next
    case 3
    from mark show ?case .
  next
    case 4
    from mark show ?case by (simp add: plain)
  qed
qed

lemma blocksClosedLater_dispatch:
  assumes "blocksClosedLater (lineIdx s) (blocks s)"
  shows "blocksClosedLater (Suc (lineIdx s)) (blocks (dispatch ol t u s))"
proof -
  note later = blocksClosedLater_mono[OF assms, of "Suc (lineIdx s)"]
  show ?thesis
  proof (rule dispatch_cases, goal_cases)
    case 1
    from later show ?case by (intro blocksClosedLater_updCurrent) simp_all
  next
    case 2
    from later show ?case by (intro blocksClosedLater_updCurrent) simp_all
  next
    case (3 kw)
    from later show ?case by (simp add: openBlock_def blocksClosedLater_def)
  next
    case (4 kw)
    have "blocksClosedLater (lineIdx s) (blocks (updCurrent (\<lambda>b. b\<lparr>endLine := int (lineIdx s)\<rparr>) s))"
      using assms by (rule blocksClosedLater_updCurrent) simp_all
    then have "blocksClosedLater (Suc (lineIdx s))
        (blocks (updCurrent (\<lambda>b. b\<lparr>endLine := int (lineIdx s)\<rparr>) s))"
      by (rule blocksClosedLater_mono) simp
    with later show ?case by (simp add: closeBlock_def)
  next
    case 5
    from later show ?case
      by (simp add: beginSection_def) (intro blocksClosedLater_updCurrent, simp_all)
  next
    case 6
    from later show ?case by simp
  next
    case 7
    from later show ?case by simp
  next
    case (8 kw)
    from later show ?case by simp
  next
    case 9
    from later show ?case by simp
  next
    case 10
    from later show ?case by (intro blocksClosedLater_codeLine) simp
  next
    case 11
    from later show ?case by simp
  qed
qed

lemma blocksClosedLater_step:
  assumes "blocksClosedLater (lineIdx s) (blocks s)"
  shows "blocksClosedLater (lineIdx (step s l)) (blocks (step s l))"
proof (cases "preprocess (inBlockComment s) l")
  case (Pair ol inBC)
  show ?thesis
  proof (cases ol)
    case None
    with Pair assms show ?thesis
      by (simp add: step_def) (erule blocksClosedLater_mono, simp)
  next
    case (Some x)
    have "blocksClosedLater (Suc (lineIdx s)) (blocks (classify x (s\<lparr>inBlockComment := inBC\<rparr>)))"
    proof (cases "trim (stripStrings x) = []")
      case True
      then show ?thesis using assms
        by (simp add: classify_def Let_def) (erule blocksClosedLater_mono, simp)
    next
      case False
      have "blocksClosedLater (Suc (lineIdx (s\<lparr>inBlockComment := inBC,
             usedVariables := usedVariables s \<union> set (map toLowerCase (hashVars x))\<rparr>)))
            (blocks (dispatch x (trim (stripStrings x)) (toUpperCase (trim (stripStrings x)))
              (s\<lparr>inBlockComment := inBC,
                 usedVariables := usedVariables s \<union> set (map toLowerCase (hashVars x))\<rparr>)))"
        using assms by (intro blocksClosedLater_dispatch) simp
      with False show ?thesis by (simp add: classify_def Let_def)
    qed
    with Pair Some show ?thesis by (simp add: step_def)
  qed
qed

lemma blocksClosedLater_scan: "blocksClosedLater (length ls) (blocks (scan ls))"
proof (induction ls rule: rev_induct)
  case Nil
  show ?case by (simp add: scan_def initState_def blocksClosedLater_def)
next
  case (snoc l ls)
  then have "blocksClosedLater (lineIdx (scan ls)) (blocks (scan ls))" by simp
  from blocksClosedLater_step[OF this, of l] show ?case by (simp add: scan_snoc)
qed

text \<open>
  Claim C9. In the model of every text, the \<open>endLine\<close> of a block is \<open>-1\<close> or lies
  strictly after the line on which the block opened.
\<close>

theorem block_closes_after_it_opens:
  "\<forall>b \<in> set (blocks (parse text)). endLine b = - 1 \<or> int (b_line b) < endLine b"
  using blocksClosedLater_scan[of "splitLines text"]
  by (simp add: parse_def parseLines_def finish_def blocksClosedLater_def)

text \<open>Witness for C9: a block that is closed on line 2, and one that is never closed.\<close>

theorem block_closes_after_it_opens_witness:
  "map b_line (blocks (parse text_two_blocks)) = [0, 3] \<and>
   map endLine (blocks (parse text_two_blocks)) = [2, - 1] \<and>
   int (b_line (hd (blocks (parse text_two_blocks)))) < endLine (hd (blocks (parse text_two_blocks)))"
proof -
  have ev: "map b_line (blocks (parse text_two_blocks)) = [0, 3]"
    "map endLine (blocks (parse text_two_blocks)) = [2, - 1]"
    by code_simp+
  then have mem: "hd (blocks (parse text_two_blocks)) \<in> set (blocks (parse text_two_blocks))"
    by (cases "blocks (parse text_two_blocks)") auto
  have ne: "endLine (hd (blocks (parse text_two_blocks))) \<noteq> - 1"
    using ev(2) by (cases "blocks (parse text_two_blocks)") auto
  from block_closes_after_it_opens[of text_two_blocks] mem ne
  have "int (b_line (hd (blocks (parse text_two_blocks)))) < endLine (hd (blocks (parse text_two_blocks)))"
    by blast
  with ev show ?thesis by simp
qed

section \<open>The codes of the rules\<close>





section \<open>A code section without code\<close>

lemma inBlockComment_perform [simp]: "inBlockComment (perform b ol t u s) = inBlockComment s"
  by (cases b) simp_all









section \<open>CASE statements without ELSE\<close>

subsection \<open>Tracking the entry of a CASE statement\<close>









subsection \<open>The frame of a CASE statement\<close>








subsection \<open>The warnings at a line\<close>










section \<open>Duplicate variables\<close>

subsection \<open>The grouping of the declarations\<close>















subsection \<open>The errors of one line\<close>








subsection \<open>Declarations of a parsed text\<close>









section \<open>Comment markers and string literals\<close>

subsection \<open>The search for a line comment\<close>

lemma indexOf_char_split:
  "indexOf cs [c] = Some k \<Longrightarrow> cs = take k cs @ c # drop (k + 1) cs \<and> c \<notin> set (take k cs)"
proof (induction cs arbitrary: k)
  case Nil
  then show ?case by simp
next
  case (Cons d ds)
  show ?case
  proof (cases "d = c")
    case True
    with Cons.prems show ?thesis by simp
  next
    case False
    with Cons.prems obtain j where j: "indexOf ds [c] = Some j" "k = Suc j" by auto
    from Cons.IH[OF j(1)] False show ?thesis by (simp add: j(2))
  qed
qed

lemma lineCommentLoop_from: "lineCommentLoop st sc i l = Some k \<Longrightarrow> i \<le> k"
proof (induction st sc i l rule: lineCommentLoop.induct)
  case (1 inString stringChar i ch nx rest)
  then show ?case by (fastforce split: if_splits)
qed simp_all

lemma lineCommentLoop_in_string:
  assumes "c \<notin> set u"
  shows "lineCommentLoop True [c] j (u @ c # t) =
         (if t = [] then None else lineCommentLoop False [c] (j + length u + 1) t)"
  using assms
proof (induction u arbitrary: j)
  case Nil
  show ?case by (cases t) simp_all
next
  case (Cons d ds)
  then have "d \<noteq> c" "c \<notin> set ds" by auto
  moreover obtain x xs where "ds @ c # t = x # xs" by (cases "ds @ c # t") auto
  ultimately show ?case using Cons.IH[of "Suc j"] by simp
qed

lemma lineCommentLoop_outside:
  assumes "closedQuotes a" and "lineCommentLoop False sc i a = None"
    and "q = SQ \<or> q = DQ" and "rest \<noteq> []"
  shows "\<exists>sc'. lineCommentLoop False sc i (a @ q # rest) =
               lineCommentLoop False sc' (i + length a) (q # rest)"
  using assms(1,2)
proof (induction a arbitrary: sc i rule: closedQuotes.induct)
  case 1
  show ?case by auto
next
  case (2 c cs)
  show ?case
  proof (cases "c = SQ \<or> c = DQ")
    case True
    with "2.prems"(1) obtain k where k: "indexOf cs [c] = Some k"
      and cl: "closedQuotes (drop (k + 1) cs)"
      by (auto split: option.splits)
    define u where "u = take k cs"
    define v where "v = drop (k + 1) cs"
    from indexOf_char_split[OF k] have cs: "cs = u @ c # v" and nin: "c \<notin> set u"
      by (simp_all add: u_def v_def)
    have len: "length (c # cs) = length u + length v + 2" by (simp add: cs)
    have full: "lineCommentLoop False sc i ((c # cs) @ q # rest) =
          lineCommentLoop False [c] (i + length u + 2) (v @ q # rest)"
      using True lineCommentLoop_in_string[OF nin, of "Suc i" "v @ q # rest"]
      by (cases u) (auto simp: cs)
    show ?thesis
    proof (cases "v = []")
      case True
      then show ?thesis unfolding full len by auto
    next
      case False
      have "lineCommentLoop False sc i (c # cs) = lineCommentLoop False [c] (i + length u + 2) v"
        using True lineCommentLoop_in_string[OF nin, of "Suc i" v] False
        by (cases u) (auto simp: cs)
      with "2.prems"(2) have "lineCommentLoop False [c] (i + length u + 2) v = None" by simp
      from "2.IH"(1)[OF True k cl[folded v_def, unfolded v_def] this[unfolded v_def]]
      show ?thesis unfolding full len by (simp add: v_def add.assoc)
    qed
  next
    case False
    with "2.prems"(1) have cl: "closedQuotes cs" by simp
    show ?thesis
    proof (cases cs)
      case Nil
      then show ?thesis using False assms(3) by auto
    next
      case (Cons d ds)
      with "2.prems"(2) False have ns: "\<not> (c = CHR ''/'' \<and> d = CHR ''/'')"
        and n: "lineCommentLoop False sc (Suc i) cs = None"
        by (auto split: if_splits)
      from "2.IH"(2)[OF False cl n] ns False show ?thesis by (auto simp: Cons)
    qed
  qed
qed

lemma literal_kept:
  assumes "closedQuotes a" and "lineCommentIndex a = None"
    and "q = SQ \<or> q = DQ" and "q \<notin> set s"
  shows "\<exists>r. cutLineComment (a @ q # s @ q # b) = a @ q # s @ q # r \<and> prefix r b"
proof -
  let ?l = "a @ q # s @ q # b"
  from lineCommentLoop_outside[OF assms(1) assms(2)[unfolded lineCommentIndex_def] assms(3),
      of "s @ q # b"]
  obtain sc' where 1: "lineCommentIndex ?l = lineCommentLoop False sc' (length a) (q # s @ q # b)"
    by (auto simp: lineCommentIndex_def)
  have 2: "lineCommentLoop False sc' (length a) (q # s @ q # b) =
           (if b = [] then None else lineCommentLoop False [q] (length a + length s + 2) b)"
    using assms(3) lineCommentLoop_in_string[OF assms(4), of "Suc (length a)" b]
    by (cases s) auto
  show ?thesis
  proof (cases "lineCommentIndex ?l")
    case None
    then show ?thesis by (simp add: cutLineComment_def)
  next
    case (Some k)
    with 1 2 have "lineCommentLoop False [q] (length a + length s + 2) b = Some k"
      by (auto split: if_splits)
    then have "length a + length s + 2 \<le> k" by (rule lineCommentLoop_from)
    then obtain j where k: "k = length a + length s + 2 + j" using le_Suc_ex by blast
    have "take k ?l = a @ q # s @ q # take j b" by (simp add: k)
    moreover have "prefix (take j b) b" by (rule take_is_prefix)
    ultimately show ?thesis using Some by (auto simp: cutLineComment_def)
  qed
qed

subsection \<open>An opener inside a literal\<close>

text \<open>
  Claim C2. The search for a line comment reads the literals of the line it is given
  (\<open>literal_kept\<close>), but the stages before it look for block-comment openers and
  terminators with no regard to literals. In \<open>text_opener_in_string\<close> the opener inside
  the literal of line 2 cuts the line there and starts the skipping of comment lines: the
  rest of the text is skipped, the \<open>EXIT\<close> of line 3 is not reported, and the block is
  returned as never closed. In \<open>line_marker_in_string\<close> the blanking from the opener in
  the first literal through the terminator in the second leaves the quotes unpaired, and
  the line is cut at the marker inside the third literal (index 28).
\<close>

theorem opener_in_string_starts_comment:
  "splitLines text_opener_in_string ! 2 = ''  #s := '' @ [SQ] @ ''(*'' @ [SQ] @ '';'' \<and>
   preprocess False (splitLines text_opener_in_string ! 2) = (Some (''  #s := '' @ [SQ]), True) \<and>
   inBlockComment (scan (splitLines text_opener_in_string)) \<and>
   exitOutsideLoop (parse text_opener_in_string) = [] \<and>
   unmatchedOpens (parse text_opener_in_string) =
     [\<lparr>keyword = ''FUNCTION_BLOCK'', se_line = 0, se_col = 0\<rparr>] \<and>
   indexOf line_marker_in_string ''//'' = Some 28 \<and>
   fst (preprocess False line_marker_in_string) =
     Some (''a := '' @ [SQ] @ replicate 13 SPC @ [DQ] @ ''; c := '' @ [SQ])"
  by code_simp
section \<open>Well-formed input\<close>

subsection \<open>Tokens and branches\<close>





subsection \<open>The words of the code section exclude one another\<close>




lemma find_exclusive:
  assumes "list_all (\<lambda>K'. P K' = (K' = K)) L"
  shows "find P L = (if K \<in> set L then Some K else None)"
  using assms by (induction L) auto

lemma find_none: "list_all (\<lambda>K'. \<not> P K') L \<Longrightarrow> find P L = None"
  by (induction L) auto







subsection \<open>A line of code and its token\<close>





subsection \<open>The stacks after each branch\<close>












subsection \<open>One line of a well-formed text\<close>


subsection \<open>The scan of a well-formed text\<close>










section \<open>The open frames of a text\<close>





subsection \<open>The stacks of the scanner are the open frames\<close>






section \<open>EXIT and CONTINUE outside a loop\<close>




end
